theory Spec2Isabelle
  imports Main "HOL-Library.AList" "HOL-Library.Sublist"
begin

section \<open>JSON values as JavaScript sees them\<close>

text \<open>
  \<^verbatim>\<open>src/core/file-operations.js\<close> reads and writes its files through the built-ins
  \<^verbatim>\<open>JSON.parse\<close> and \<^verbatim>\<open>JSON.stringify(v, null, 2)\<close>.  They are modelled on byte
  strings.  A number token without fraction and exponent is an integer \<open>JNumber\<close>; a token
  with a fraction or an exponent is kept as its lexeme (\<open>JFloat\<close>), since the model has no
  IEEE doubles.  An object is the list of its members in insertion order.
\<close>

datatype json =
    JNull
  | JBool bool
  | JNumber int
  | JFloat string
  | JString string
  | JArray "json list"
  | JObject "(string \<times> json) list"

definition dquote :: char where
  "dquote = CHR 0x22"

definition backslash :: char where
  "backslash = CHR 0x5C"

definition newline :: char where
  "newline = CHR 0x0A"

definition json_ws :: "char \<Rightarrow> bool" where
  "json_ws c \<longleftrightarrow> c = CHR '' '' \<or> c = CHR 0x09 \<or> c = CHR 0x0A \<or> c = CHR 0x0D"

definition skip_ws :: "string \<Rightarrow> string" where
  "skip_ws s = dropWhile json_ws s"

definition is_digit :: "char \<Rightarrow> bool" where
  "is_digit c \<longleftrightarrow> (48::nat) \<le> of_char c \<and> of_char c \<le> (57::nat)"

definition digit_val :: "char \<Rightarrow> nat" where
  "digit_val c = of_char c - 48"

definition digits_val :: "string \<Rightarrow> nat" where
  "digits_val ds = foldl (\<lambda>a c. 10 * a + digit_val c) 0 ds"

definition hex_val :: "char \<Rightarrow> nat option" where
  "hex_val c =
     (let n = (of_char c :: nat) in
      if 48 \<le> n \<and> n \<le> 57 then Some (n - 48)
      else if 97 \<le> n \<and> n \<le> 102 then Some (n - 87)
      else if 65 \<le> n \<and> n \<le> 70 then Some (n - 55)
      else None)"

definition hex4 :: "char \<Rightarrow> char \<Rightarrow> char \<Rightarrow> char \<Rightarrow> nat option" where
  "hex4 a b c d =
     (case (hex_val a, hex_val b, hex_val c, hex_val d) of
        (Some w, Some x, Some y, Some z) \<Rightarrow> Some (((w * 16 + x) * 16 + y) * 16 + z)
      | _ \<Rightarrow> None)"

text \<open>A \<^verbatim>\<open>\uXXXX\<close> escape denotes a UTF-16 code unit; the file holds it in UTF-8.\<close>

definition utf8 :: "nat \<Rightarrow> string" where
  "utf8 n =
     (if n < 128 then [char_of n]
      else if n < 2048 then [char_of (192 + n div 64), char_of (128 + n mod 64)]
      else [char_of (224 + n div 4096), char_of (128 + (n div 64) mod 64),
            char_of (128 + n mod 64)])"

definition escape_char :: "char \<Rightarrow> char option" where
  "escape_char e =
     (if e = dquote then Some dquote
      else if e = backslash then Some backslash
      else if e = CHR ''/'' then Some (CHR ''/'')
      else if e = CHR ''b'' then Some (CHR 0x08)
      else if e = CHR ''f'' then Some (CHR 0x0C)
      else if e = CHR ''n'' then Some (CHR 0x0A)
      else if e = CHR ''r'' then Some (CHR 0x0D)
      else if e = CHR ''t'' then Some (CHR 0x09)
      else None)"

text \<open>The characters of a string literal after its opening quote, up to the closing one.\<close>

fun parse_chars :: "string \<Rightarrow> (string \<times> string) option" where
  "parse_chars [] = None"
| "parse_chars (c # r) =
     (if c = dquote then Some ([], r)
      else if c = backslash then
        (case r of
           [] \<Rightarrow> None
         | e # r' \<Rightarrow>
             if e = CHR ''u'' then
               (case r' of
                  a # b # x # d # r'' \<Rightarrow>
                    (case hex4 a b x d of
                       None \<Rightarrow> None
                     | Some n \<Rightarrow> map_option (\<lambda>(s, rest). (utf8 n @ s, rest)) (parse_chars r''))
                | _ \<Rightarrow> None)
             else
               (case escape_char e of
                  None \<Rightarrow> None
                | Some ch \<Rightarrow> map_option (\<lambda>(s, rest). (ch # s, rest)) (parse_chars r')))
      else if (of_char c :: nat) < 32 then None
      else map_option (\<lambda>(s, rest). (c # s, rest)) (parse_chars r))"

text \<open>
  A number token: \<^verbatim>\<open>-?(0|[1-9][0-9]*)(\.[0-9]+)?([eE][+-]?[0-9]+)?\<close>.
\<close>

definition parse_frac :: "string \<Rightarrow> (bool \<times> string) option" where
  "parse_frac s =
     (case s of
        c # r \<Rightarrow>
          if c = CHR ''.'' then
            (if takeWhile is_digit r = [] then None else Some (True, dropWhile is_digit r))
          else Some (False, s)
      | [] \<Rightarrow> Some (False, s))"

definition parse_exp :: "string \<Rightarrow> (bool \<times> string) option" where
  "parse_exp s =
     (case s of
        c # r \<Rightarrow>
          if c = CHR ''e'' \<or> c = CHR ''E'' then
            (let r' = (case r of
                         d # x \<Rightarrow> if d = CHR ''+'' \<or> d = CHR ''-'' then x else r
                       | [] \<Rightarrow> r)
             in if takeWhile is_digit r' = [] then None
                else Some (True, dropWhile is_digit r'))
          else Some (False, s)
      | [] \<Rightarrow> Some (False, s))"

definition parse_number :: "string \<Rightarrow> (json \<times> string) option" where
  "parse_number s =
     (let neg = (case s of c # _ \<Rightarrow> c = CHR ''-'' | [] \<Rightarrow> False);
          s1 = (if neg then tl s else s);
          ip = takeWhile is_digit s1
      in if ip = [] \<or> (1 < length ip \<and> hd ip = CHR ''0'') then None
         else
           (case parse_frac (dropWhile is_digit s1) of
              None \<Rightarrow> None
            | Some (has_frac, s2) \<Rightarrow>
                (case parse_exp s2 of
                   None \<Rightarrow> None
                 | Some (has_exp, s3) \<Rightarrow>
                     if has_frac \<or> has_exp
                     then Some (JFloat (take (length s - length s3) s), s3)
                     else Some (JNumber (if neg then - int (digits_val ip)
                                         else int (digits_val ip)), s3))))"

definition parse_literal :: "string \<Rightarrow> (json \<times> string) option" where
  "parse_literal s =
     (if take 4 s = ''true'' then Some (JBool True, drop 4 s)
      else if take 5 s = ''false'' then Some (JBool False, drop 5 s)
      else if take 4 s = ''null'' then Some (JNull, drop 4 s)
      else parse_number s)"

text \<open>
  A repeated key keeps its first position and takes the last value, as a JavaScript object
  does.
\<close>

definition obj_put :: "(string \<times> json) list \<Rightarrow> string \<Rightarrow> json \<Rightarrow> (string \<times> json) list" where
  "obj_put ms k v = AList.update k v ms"

text \<open>
  Recursive descent.  The first argument bounds the nesting: every call that descends has
  consumed a character, so the length of the text is enough (lemma \<open>JSON_parse_fuel\<close>).
\<close>

fun parse_value :: "nat \<Rightarrow> string \<Rightarrow> (json \<times> string) option"
  and parse_elements :: "nat \<Rightarrow> string \<Rightarrow> json list \<Rightarrow> (json \<times> string) option"
  and parse_members :: "nat \<Rightarrow> string \<Rightarrow> (string \<times> json) list \<Rightarrow> (json \<times> string) option"
where
  "parse_value 0 s = None"
| "parse_value (Suc n) s =
     (case s of
        [] \<Rightarrow> None
      | c # r \<Rightarrow>
          if c = CHR ''['' then
            (case skip_ws r of
               [] \<Rightarrow> None
             | c' # r' \<Rightarrow>
                 if c' = CHR '']'' then Some (JArray [], r')
                 else parse_elements n (c' # r') [])
          else if c = CHR ''{'' then
            (case skip_ws r of
               [] \<Rightarrow> None
             | c' # r' \<Rightarrow>
                 if c' = CHR ''}'' then Some (JObject [], r')
                 else parse_members n (c' # r') [])
          else if c = dquote then
            map_option (\<lambda>(str, rest). (JString str, rest)) (parse_chars r)
          else parse_literal s)"
| "parse_elements n s acc =
     (case parse_value n s of
        None \<Rightarrow> None
      | Some (v, r) \<Rightarrow>
          (case skip_ws r of
             [] \<Rightarrow> None
           | c # r' \<Rightarrow>
               if c = CHR '','' then
                 (case n of
                    0 \<Rightarrow> None
                  | Suc m \<Rightarrow> parse_elements m (skip_ws r') (acc @ [v]))
               else if c = CHR '']'' then Some (JArray (acc @ [v]), r')
               else None))"
| "parse_members n s acc =
     (case s of
        [] \<Rightarrow> None
      | c # r \<Rightarrow>
          if c \<noteq> dquote then None
          else
            (case parse_chars r of
               None \<Rightarrow> None
             | Some (k, r1) \<Rightarrow>
                 (case skip_ws r1 of
                    [] \<Rightarrow> None
                  | c1 # r2 \<Rightarrow>
                      if c1 \<noteq> CHR '':'' then None
                      else
                        (case parse_value n (skip_ws r2) of
                           None \<Rightarrow> None
                         | Some (v, r3) \<Rightarrow>
                             (case skip_ws r3 of
                                [] \<Rightarrow> None
                              | c3 # r4 \<Rightarrow>
                                  if c3 = CHR '','' then
                                    (case n of
                                       0 \<Rightarrow> None
                                     | Suc m \<Rightarrow> parse_members m (skip_ws r4) (obj_put acc k v))
                                  else if c3 = CHR ''}'' then Some (JObject (obj_put acc k v), r4)
                                  else None)))))"

text \<open>\<^verbatim>\<open>JSON.parse(text)\<close>: \<open>None\<close> stands for the \<^verbatim>\<open>SyntaxError\<close> it throws.\<close>

definition JSON_parse :: "string \<Rightarrow> json option" where
  "JSON_parse s =
     (case parse_value (length s) (skip_ws s) of
        None \<Rightarrow> None
      | Some (v, r) \<Rightarrow> if skip_ws r = [] then Some v else None)"

subsection \<open>JSON.stringify with an indentation of two spaces\<close>

definition digit_char :: "nat \<Rightarrow> char" where
  "digit_char n = ''0123456789abcdef'' ! n"

fun show_nat :: "nat \<Rightarrow> string" where
  "show_nat n =
     (if n < 10 then [digit_char n]
      else show_nat (n div 10) @ [digit_char (n mod 10)])"

declare show_nat.simps [simp del]

definition show_int :: "int \<Rightarrow> string" where
  "show_int i = (if i < 0 then CHR ''-'' # show_nat (nat (- i)) else show_nat (nat i))"

definition quote_char :: "char \<Rightarrow> string" where
  "quote_char c =
     (if c = dquote then [backslash, dquote]
      else if c = backslash then [backslash, backslash]
      else if c = CHR 0x08 then [backslash, CHR ''b'']
      else if c = CHR 0x0C then [backslash, CHR ''f'']
      else if c = CHR 0x0A then [backslash, CHR ''n'']
      else if c = CHR 0x0D then [backslash, CHR ''r'']
      else if c = CHR 0x09 then [backslash, CHR ''t'']
      else if (of_char c :: nat) < 32 then
        [backslash, CHR ''u'', CHR ''0'', CHR ''0'',
         digit_char (of_char c div 16), digit_char (of_char c mod 16)]
      else [c])"

definition quote :: "string \<Rightarrow> string" where
  "quote s = dquote # concat (map quote_char s) @ [dquote]"

fun join :: "string \<Rightarrow> string list \<Rightarrow> string" where
  "join sep [] = []"
| "join sep [x] = x"
| "join sep (x # y # ys) = x @ sep @ join sep (y # ys)"

fun stringify_at :: "nat \<Rightarrow> json \<Rightarrow> string" where
  "stringify_at i JNull = ''null''"
| "stringify_at i (JBool b) = (if b then ''true'' else ''false'')"
| "stringify_at i (JNumber n) = show_int n"
| "stringify_at i (JFloat s) = s"
| "stringify_at i (JString s) = quote s"
| "stringify_at i (JArray xs) =
     (if xs = [] then ''[]''
      else ''['' @ [newline]
           @ join ('','' @ [newline])
               (map (\<lambda>x. replicate (i + 2) (CHR '' '') @ stringify_at (i + 2) x) xs)
           @ [newline] @ replicate i (CHR '' '') @ '']'')"
| "stringify_at i (JObject ms) =
     (if ms = [] then ''{}''
      else ''{'' @ [newline]
           @ join ('','' @ [newline])
               (map (\<lambda>(k, x). replicate (i + 2) (CHR '' '') @ quote k @ '': ''
                                 @ stringify_at (i + 2) x) ms)
           @ [newline] @ replicate i (CHR '' '') @ ''}'')"

text \<open>\<^verbatim>\<open>JSON.stringify(v, null, 2)\<close>.\<close>

definition JSON_stringify :: "json \<Rightarrow> string" where
  "JSON_stringify v = stringify_at 0 v"

section \<open>The file system, the process and its environment\<close>

text \<open>
  A path is the list of its directory components and a file name, so that
  \<^verbatim>\<open>path.dirname\<close>, \<^verbatim>\<open>path.basename\<close> and \<^verbatim>\<open>path.join\<close> are projections and no
  normalisation is needed.  The disk is the list of its files in directory order; a file is
  its bytes, or \<open>Denied\<close> when the process may neither read nor write it (the one source of
  I/O errors in the model).  A path names a file or a directory, never both.
\<close>

type_synonym path = "string list \<times> string"

datatype fnode = Bytes string | Denied

record disk =
  files :: "(path \<times> fnode) list"
  dirs :: "string list list"

datatype error =
    FileIsLocked "json option"
  | NoProperLock
  | AtomicWriteFailed error
  | TypeError
  | SyntaxError
  | IOError
  | Unmodelled

text \<open>
  \<open>FileIsLocked w\<close> is \<^verbatim>\<open>Error(`File is locked by ${w}. Try again in a moment.`)\<close>,
  \<open>NoProperLock\<close> is \<^verbatim>\<open>Error('Cannot write without proper file lock')\<close> and
  \<open>AtomicWriteFailed e\<close> is \<^verbatim>\<open>Error(`Atomic write failed: ${e.message}`)\<close>.  \<open>Unmodelled\<close>
  is no JavaScript exception: it marks an input whose number coercion the model does not
  cover, and no \<^verbatim>\<open>catch\<close> block of the model handles it.
\<close>

definition fs_lookup :: "disk \<Rightarrow> path \<Rightarrow> fnode option" where
  "fs_lookup d p = map_of (files d) p"

definition fs_pathExists :: "disk \<Rightarrow> path \<Rightarrow> bool" where
  "fs_pathExists d p \<longleftrightarrow> fs_lookup d p \<noteq> None"

definition fs_dirExists :: "disk \<Rightarrow> string list \<Rightarrow> bool" where
  "fs_dirExists d dir \<longleftrightarrow> dir \<in> set (dirs d) \<or> dir \<in> set (map (fst \<circ> fst) (files d))"

definition fs_readFile :: "disk \<Rightarrow> path \<Rightarrow> error + string" where
  "fs_readFile d p =
     (case fs_lookup d p of
        None \<Rightarrow> Inl IOError
      | Some Denied \<Rightarrow> Inl IOError
      | Some (Bytes b) \<Rightarrow> Inr b)"

definition fs_writeFile :: "disk \<Rightarrow> path \<Rightarrow> string \<Rightarrow> error + disk" where
  "fs_writeFile d p b =
     (case fs_lookup d p of
        Some Denied \<Rightarrow> Inl IOError
      | _ \<Rightarrow> Inr (d\<lparr>files := AList.update p (Bytes b) (files d)\<rparr>))"

definition fs_remove :: "disk \<Rightarrow> path \<Rightarrow> disk" where
  "fs_remove d p = d\<lparr>files := AList.delete p (files d)\<rparr>"

text \<open>\<^verbatim>\<open>fs.move(src, dest, { overwrite: true })\<close>, which the source takes to be atomic.\<close>

definition fs_move :: "disk \<Rightarrow> path \<Rightarrow> path \<Rightarrow> error + disk" where
  "fs_move d src dest =
     (case fs_lookup d src of
        None \<Rightarrow> Inl IOError
      | Some n \<Rightarrow> Inr (d\<lparr>files := AList.update dest n (AList.delete src (files d))\<rparr>))"

definition fs_copy :: "disk \<Rightarrow> path \<Rightarrow> path \<Rightarrow> error + disk" where
  "fs_copy d src dest =
     (case fs_readFile d src of
        Inl e \<Rightarrow> Inl e
      | Inr b \<Rightarrow> fs_writeFile d dest b)"

definition fs_readdir :: "disk \<Rightarrow> string list \<Rightarrow> string list" where
  "fs_readdir d dir = map (snd \<circ> fst) (filter (\<lambda>(q, n). fst q = dir) (files d))"

definition fs_ensureDir :: "disk \<Rightarrow> string list \<Rightarrow> disk" where
  "fs_ensureDir d dir = (if fs_dirExists d dir then d else d\<lparr>dirs := dir # dirs d\<rparr>)"

text \<open>
  The state of one process is the \<^verbatim>\<open>FileOperations\<close> singleton: the map \<^verbatim>\<open>this.locks\<close>
  from a file path to \<^verbatim>\<open>{ lockId, lockFile }\<close>, the callbacks that \<^verbatim>\<open>setTimeout\<close> has
  queued (each a call \<^verbatim>\<open>releaseLock(filePath, lockId)\<close> with the time it is due), and the
  number of calls of \<^verbatim>\<open>uuidv4()\<close> so far.  Several processes share one disk.
\<close>

record proc =
  locks :: "path \<rightharpoonup> string \<times> path"
  timers :: "(path \<times> string \<times> int) list"
  uuid_calls :: nat

text \<open>
  What a call reads from outside: \<^verbatim>\<open>Date.now()\<close> (one reading for the whole call), the
  values of \<^verbatim>\<open>uuidv4()\<close> in the order of the calls, the result of
  \<^verbatim>\<open>getCurrentWorkerId()\<close> (\<open>None\<close> when the configuration has no \<^verbatim>\<open>worker_id\<close>),
  \<^verbatim>\<open>process.pid\<close> and \<^verbatim>\<open>new Date().toISOString()\<close>.
\<close>

record env =
  now :: int
  uuidv4 :: "nat \<Rightarrow> string"
  workerId :: "json option"
  pid :: int
  isoNow :: string

definition maxLockTime :: int where
  "maxLockTime = 30000"

definition next_uuid :: "env \<Rightarrow> proc \<Rightarrow> string \<times> proc" where
  "next_uuid e p = (uuidv4 e (uuid_calls p), p\<lparr>uuid_calls := Suc (uuid_calls p)\<rparr>)"

section \<open>Layer 3: the file locking system\<close>

definition lockFile_of :: "path \<Rightarrow> path" where
  "lockFile_of filePath = (fst filePath, snd filePath @ ''.lock'')"

text \<open>Reading a property of a parsed value: \<^verbatim>\<open>null.x\<close> throws, a missing one is undefined.\<close>

definition get_prop :: "json \<Rightarrow> string \<Rightarrow> error + json option" where
  "get_prop v k =
     (case v of
        JNull \<Rightarrow> Inl TypeError
      | JObject ms \<Rightarrow> Inr (map_of ms k)
      | _ \<Rightarrow> Inr None)"

definition unknownLock :: json where
  "unknownLock = JObject [(''timestamp'', JNumber 0), (''workerId'', JString ''unknown'')]"

definition readLockFile :: "disk \<Rightarrow> path \<Rightarrow> json" where
  "readLockFile d lockFile =
     (case fs_readFile d lockFile of
        Inl _ \<Rightarrow> unknownLock
      | Inr content \<Rightarrow>
          (case JSON_parse content of
             None \<Rightarrow> unknownLock
           | Some v \<Rightarrow> v))"

text \<open>
  \<^verbatim>\<open>Date.now() - lockData.timestamp > timeout\<close>.  An undefined timestamp makes the difference
  \<^verbatim>\<open>NaN\<close> and the comparison false; \<^verbatim>\<open>null\<close> and the booleans coerce to 0 and 1.  The
  coercion of strings, arrays, objects and non-integer numbers is not modelled.
\<close>

definition lock_is_stale :: "int \<Rightarrow> json option \<Rightarrow> int \<Rightarrow> bool option" where
  "lock_is_stale t ts timeout =
     (case ts of
        None \<Rightarrow> Some False
      | Some JNull \<Rightarrow> Some (t - 0 > timeout)
      | Some (JBool b) \<Rightarrow> Some (t - (if b then 1 else 0) > timeout)
      | Some (JNumber n) \<Rightarrow> Some (t - n > timeout)
      | Some _ \<Rightarrow> None)"

text \<open>
  \<^verbatim>\<open>acquireLock\<close> suspends at each \<^verbatim>\<open>await\<close>.  Its two halves are the existence check with
  the removal of a stale lock (lines 25 to 35) and the grant (lines 37 to 53); another
  process can run between them.
\<close>

definition acquire_check :: "env \<Rightarrow> path \<Rightarrow> int \<Rightarrow> disk \<Rightarrow> error + disk" where
  "acquire_check e filePath timeout d =
     (let lockFile = lockFile_of filePath in
      if fs_pathExists d lockFile then
        (let lockData = readLockFile d lockFile in
         case get_prop lockData ''timestamp'' of
           Inl err \<Rightarrow> Inl err
         | Inr ts \<Rightarrow>
             (case lock_is_stale (now e) ts timeout of
                None \<Rightarrow> Inl Unmodelled
              | Some True \<Rightarrow> Inr (fs_remove d lockFile)
              | Some False \<Rightarrow>
                  (case get_prop lockData ''workerId'' of
                     Inl err \<Rightarrow> Inl err
                   | Inr w \<Rightarrow> Inl (FileIsLocked w))))
      else Inr d)"

definition lockData_of :: "env \<Rightarrow> string \<Rightarrow> json" where
  "lockData_of e lockId =
     JObject ([(''lockId'', JString lockId)]
              @ (case workerId e of None \<Rightarrow> [] | Some w \<Rightarrow> [(''workerId'', w)])
              @ [(''timestamp'', JNumber (now e)), (''pid'', JNumber (pid e))])"

definition acquire_grant ::
  "env \<Rightarrow> path \<Rightarrow> int \<Rightarrow> string \<Rightarrow> proc \<Rightarrow> disk \<Rightarrow> (error + string) \<times> proc \<times> disk" where
  "acquire_grant e filePath timeout lockId p d =
     (let lockFile = lockFile_of filePath in
      case fs_writeFile d lockFile (JSON_stringify (lockData_of e lockId)) of
        Inl err \<Rightarrow> (Inl err, p, d)
      | Inr d' \<Rightarrow>
          (Inr lockId,
           p\<lparr>locks := (locks p)(filePath \<mapsto> (lockId, lockFile)),
             timers := timers p @ [(filePath, lockId, now e + timeout)]\<rparr>,
           d'))"

definition acquireLock ::
  "env \<Rightarrow> path \<Rightarrow> int \<Rightarrow> proc \<Rightarrow> disk \<Rightarrow> (error + string) \<times> proc \<times> disk" where
  "acquireLock e filePath timeout p d =
     (let (lockId, p1) = next_uuid e p in
      case acquire_check e filePath timeout d of
        Inl err \<Rightarrow> (Inl err, p1, d)
      | Inr d1 \<Rightarrow> acquire_grant e filePath timeout lockId p1 d1)"

text \<open>
  \<^verbatim>\<open>releaseLock\<close> compares the given id with the entry of \<^verbatim>\<open>this.locks\<close>; it never reads
  the lock file.  Removing a file cannot fail in the model, so its \<^verbatim>\<open>catch\<close> is never
  entered.
\<close>

definition releaseLock :: "path \<Rightarrow> string \<Rightarrow> proc \<Rightarrow> disk \<Rightarrow> proc \<times> disk" where
  "releaseLock filePath lockId p d =
     (let lockFile = lockFile_of filePath in
      case locks p filePath of
        None \<Rightarrow> (p, d)
      | Some lockInfo \<Rightarrow>
          if fst lockInfo = lockId
          then (p\<lparr>locks := (locks p)(filePath := None)\<rparr>, fs_remove d lockFile)
          else (p, d))"

text \<open>The callback that \<^verbatim>\<open>setTimeout\<close> queued, when the event loop runs it.\<close>

definition fire_timer :: "path \<times> string \<times> int \<Rightarrow> proc \<Rightarrow> disk \<Rightarrow> proc \<times> disk" where
  "fire_timer t p d =
     (case t of (filePath, lockId, due) \<Rightarrow>
        releaseLock filePath lockId (p\<lparr>timers := remove1 t (timers p)\<rparr>) d)"

section \<open>JavaScript string functions used by the source\<close>

definition starts_with :: "string \<Rightarrow> string \<Rightarrow> bool" where
  "starts_with s pre \<longleftrightarrow> take (length pre) s = pre"

definition ends_with :: "string \<Rightarrow> string \<Rightarrow> bool" where
  "ends_with s suf \<longleftrightarrow> length suf \<le> length s \<and> drop (length s - length suf) s = suf"

fun index_of :: "string \<Rightarrow> string \<Rightarrow> nat option" where
  "index_of pat [] = (if pat = [] then Some 0 else None)"
| "index_of pat (c # s) =
     (if starts_with (c # s) pat then Some 0 else map_option Suc (index_of pat s))"

text \<open>\<^verbatim>\<open>s.split(sep)[1]\<close> for a separator that is not empty; \<open>None\<close> is \<^verbatim>\<open>undefined\<close>.\<close>

definition split_second :: "string \<Rightarrow> string \<Rightarrow> string option" where
  "split_second sep s =
     (case index_of sep s of
        None \<Rightarrow> None
      | Some i \<Rightarrow>
          (let r = drop (i + length sep) s in
           case index_of sep r of
             None \<Rightarrow> Some r
           | Some j \<Rightarrow> Some (take j r)))"

text \<open>\<^verbatim>\<open>s.replace(pat, rep)\<close> with a string pattern replaces the first occurrence only.\<close>

definition replace_first :: "string \<Rightarrow> string \<Rightarrow> string \<Rightarrow> string" where
  "replace_first pat rep s =
     (case index_of pat s of
        None \<Rightarrow> s
      | Some i \<Rightarrow> take i s @ rep @ drop (i + length pat) s)"

text \<open>The class \<^verbatim>\<open>\s\<close> and the class \<^verbatim>\<open>\w\<close> of a regular expression, on ASCII.\<close>

definition js_space :: "char \<Rightarrow> bool" where
  "js_space c \<longleftrightarrow>
     c = CHR '' '' \<or> c = CHR 0x09 \<or> c = CHR 0x0A \<or> c = CHR 0x0B \<or> c = CHR 0x0C \<or> c = CHR 0x0D"

definition is_word :: "char \<Rightarrow> bool" where
  "is_word c \<longleftrightarrow>
     (let n = (of_char c :: nat) in
      (48 \<le> n \<and> n \<le> 57) \<or> (65 \<le> n \<and> n \<le> 90) \<or> (97 \<le> n \<and> n \<le> 122) \<or> n = 95)"

datatype jsnum = Num int | NaN

text \<open>
  \<^verbatim>\<open>parseInt(s)\<close>: leading white space and a sign are skipped, a prefix \<^verbatim>\<open>0x\<close> selects
  radix 16, the longest run of digits is read, and there is no number without a digit.
\<close>

definition parseInt :: "string option \<Rightarrow> jsnum" where
  "parseInt so =
     (case so of
        None \<Rightarrow> NaN
      | Some s0 \<Rightarrow>
          (let s1 = dropWhile js_space s0;
               neg = (case s1 of c # _ \<Rightarrow> c = CHR ''-'' | [] \<Rightarrow> False);
               s2 = (case s1 of c # r \<Rightarrow> if c = CHR ''-'' \<or> c = CHR ''+'' then r else s1
                     | [] \<Rightarrow> s1);
               hex = (take 2 s2 = ''0x'' \<or> take 2 s2 = ''0X'');
               n = (if hex
                    then (let ds = takeWhile (\<lambda>c. hex_val c \<noteq> None) (drop 2 s2) in
                          if ds = [] then None
                          else Some (foldl (\<lambda>a c. 16 * a + the (hex_val c)) 0 ds))
                    else (let ds = takeWhile is_digit s2 in
                          if ds = [] then None else Some (digits_val ds)))
           in case n of
                None \<Rightarrow> NaN
              | Some k \<Rightarrow> Num (if neg then - int k else int k)))"

definition js_minus :: "jsnum \<Rightarrow> jsnum \<Rightarrow> jsnum" where
  "js_minus a b = (case (a, b) of (Num x, Num y) \<Rightarrow> Num (x - y) | _ \<Rightarrow> NaN)"

text \<open>
  \<^verbatim>\<open>Array.prototype.sort(compare)\<close> is stable; a comparator result that is \<^verbatim>\<open>NaN\<close> counts
  as 0.  The model is the stable insertion sort.
\<close>

definition cmp_le0 :: "jsnum \<Rightarrow> bool" where
  "cmp_le0 r = (case r of Num x \<Rightarrow> x \<le> 0 | NaN \<Rightarrow> True)"

fun insert_by :: "('a \<Rightarrow> 'a \<Rightarrow> jsnum) \<Rightarrow> 'a \<Rightarrow> 'a list \<Rightarrow> 'a list" where
  "insert_by cmp x [] = [x]"
| "insert_by cmp x (y # ys) =
     (if cmp_le0 (cmp x y) then x # y # ys else y # insert_by cmp x ys)"

definition js_sort :: "('a \<Rightarrow> 'a \<Rightarrow> jsnum) \<Rightarrow> 'a list \<Rightarrow> 'a list" where
  "js_sort cmp xs = foldr (insert_by cmp) xs []"

text \<open>The condition of \<^verbatim>\<open>if (v)\<close> on a parsed value.\<close>

definition js_truthy :: "json \<Rightarrow> bool" where
  "js_truthy v =
     (case v of
        JNull \<Rightarrow> False
      | JBool b \<Rightarrow> b
      | JNumber n \<Rightarrow> n \<noteq> 0
      | JFloat s \<Rightarrow> \<not> list_all (\<lambda>c. c = CHR ''0'' \<or> c = CHR ''-'' \<or> c = CHR ''.'')
                          (takeWhile (\<lambda>c. c \<noteq> CHR ''e'' \<and> c \<noteq> CHR ''E'') s)
      | JString s \<Rightarrow> s \<noteq> []
      | _ \<Rightarrow> True)"

section \<open>Layer 5: the backup system\<close>

definition backupDir_of :: "path \<Rightarrow> string list" where
  "backupDir_of filePath = fst filePath @ [''.backups'']"

definition backupFile_of :: "path \<Rightarrow> int \<Rightarrow> path" where
  "backupFile_of filePath timestamp =
     (backupDir_of filePath, snd filePath @ ''.backup.'' @ show_int timestamp)"

definition backup_timestamp :: "string \<Rightarrow> jsnum" where
  "backup_timestamp a = parseInt (split_second ''.backup.'' a)"

definition newest_first :: "string \<Rightarrow> string \<Rightarrow> jsnum" where
  "newest_first a b = js_minus (backup_timestamp b) (backup_timestamp a)"

text \<open>The list \<^verbatim>\<open>backupFiles\<close> that both \<^verbatim>\<open>cleanOldBackups\<close> and \<^verbatim>\<open>restoreFromBackup\<close> compute.\<close>

definition backupFiles :: "disk \<Rightarrow> path \<Rightarrow> string list" where
  "backupFiles d filePath =
     js_sort newest_first
       (filter (\<lambda>file. starts_with file (snd filePath @ ''.backup.''))
          (fs_readdir d (backupDir_of filePath)))"

definition cleanOldBackups :: "path \<Rightarrow> disk \<Rightarrow> disk" where
  "cleanOldBackups filePath d =
     (let backupDir = backupDir_of filePath in
      if \<not> fs_dirExists d backupDir then d
      else foldl (\<lambda>d' file. fs_remove d' (backupDir, file)) d (drop 10 (backupFiles d filePath)))"

text \<open>\<^verbatim>\<open>createBackup\<close> catches every error of its body and only warns.\<close>

definition createBackup :: "env \<Rightarrow> path \<Rightarrow> disk \<Rightarrow> disk" where
  "createBackup e filePath d =
     (if \<not> fs_pathExists d filePath then d
      else
        (let d1 = fs_ensureDir d (backupDir_of filePath) in
         case fs_copy d1 filePath (backupFile_of filePath (now e)) of
           Inl _ \<Rightarrow> d1
         | Inr d2 \<Rightarrow> cleanOldBackups filePath d2))"

section \<open>Layer 2: the atomic write\<close>

text \<open>
  The argument \<^verbatim>\<open>data\<close> is a JSON value, or a value on which \<^verbatim>\<open>JSON.stringify\<close> throws (a
  cyclic object, a \<^verbatim>\<open>BigInt\<close>).
\<close>

datatype jsvalue = Json json | Unserialisable

definition dataString_of :: "jsvalue \<Rightarrow> error + string" where
  "dataString_of data =
     (case data of
        Json (JString s) \<Rightarrow> Inr s
      | Json v \<Rightarrow> Inr (JSON_stringify v)
      | Unserialisable \<Rightarrow> Inl TypeError)"

definition tempFile_of :: "env \<Rightarrow> string \<Rightarrow> path \<Rightarrow> path" where
  "tempFile_of e u filePath =
     (fst filePath, snd filePath @ ''.tmp.'' @ show_int (now e) @ ''.'' @ u)"

text \<open>The body of the \<^verbatim>\<open>try\<close> block: the error it throws, if any, and the disk it leaves.\<close>

definition write_try :: "env \<Rightarrow> path \<Rightarrow> path \<Rightarrow> string \<Rightarrow> disk \<Rightarrow> error option \<times> disk" where
  "write_try e filePath tempFile dataString d =
     (let d1 = createBackup e filePath d in
      case fs_writeFile d1 tempFile dataString of
        Inl err \<Rightarrow> (Some err, d1)
      | Inr d2 \<Rightarrow>
          (case (if ends_with (snd filePath) ''.json'' then
                   (case fs_readFile d2 tempFile of
                      Inl err \<Rightarrow> Some err
                    | Inr testContent \<Rightarrow>
                        (case JSON_parse testContent of
                           None \<Rightarrow> Some SyntaxError
                         | Some _ \<Rightarrow> None))
                 else None) of
             Some err \<Rightarrow> (Some err, d2)
           | None \<Rightarrow>
               (case fs_move d2 tempFile filePath of
                  Inl err \<Rightarrow> (Some err, d2)
                | Inr d3 \<Rightarrow> (None, d3))))"

text \<open>
  The lock check, the name of the temporary file and the serialisation stand before the
  \<^verbatim>\<open>try\<close>: what they throw passes neither the \<^verbatim>\<open>catch\<close> nor the \<^verbatim>\<open>finally\<close> block.
\<close>

definition atomicWrite ::
  "env \<Rightarrow> path \<Rightarrow> jsvalue \<Rightarrow> string \<Rightarrow> proc \<Rightarrow> disk \<Rightarrow> (error + unit) \<times> proc \<times> disk" where
  "atomicWrite e filePath data lockId p d =
     (case locks p filePath of
        None \<Rightarrow> (Inl NoProperLock, p, d)
      | Some lockInfo \<Rightarrow>
          if fst lockInfo \<noteq> lockId then (Inl NoProperLock, p, d)
          else
            (let (u, p1) = next_uuid e p;
                 tempFile = tempFile_of e u filePath
             in case dataString_of data of
                  Inl err \<Rightarrow> (Inl err, p1, d)
                | Inr dataString \<Rightarrow>
                    (let (thrown, d1) = write_try e filePath tempFile dataString d;
                         (result, d2) =
                           (case thrown of
                              None \<Rightarrow> (Inr (), d1)
                            | Some err \<Rightarrow> (Inl (AtomicWriteFailed err), fs_remove d1 tempFile));
                         (p2, d3) = releaseLock filePath lockId p1 d2
                     in (result, p2, d3))))"

section \<open>Layer 4: validation and recovery\<close>

text \<open>
  The five replacements of \<^verbatim>\<open>attemptJSONRecovery\<close>, each a scan from left to right as the
  regular expression engine makes it.  \<open>strip_trailing_commas\<close> is
  \<^verbatim>\<open>.replace(/,(\s*[}\]])/g, '$1')\<close>: its first argument holds the white space read after a
  comma that is not yet written.
\<close>

fun strip_trailing_commas :: "string option \<Rightarrow> string \<Rightarrow> string" where
  "strip_trailing_commas None [] = []"
| "strip_trailing_commas (Some w) [] = CHR '','' # w"
| "strip_trailing_commas None (c # s) =
     (if c = CHR '','' then strip_trailing_commas (Some []) s
      else c # strip_trailing_commas None s)"
| "strip_trailing_commas (Some w) (c # s) =
     (if js_space c then strip_trailing_commas (Some (w @ [c])) s
      else if c = CHR ''}'' \<or> c = CHR '']'' then w @ c # strip_trailing_commas None s
      else if c = CHR '','' then CHR '','' # w @ strip_trailing_commas (Some []) s
      else CHR '','' # w @ c # strip_trailing_commas None s)"

text \<open>\<^verbatim>\<open>.replace(/(\w+):/g, '"$1":')\<close>: the first argument is the run of word characters read.\<close>

fun quote_keys :: "string \<Rightarrow> string \<Rightarrow> string" where
  "quote_keys w [] = w"
| "quote_keys w (c # s) =
     (if is_word c then quote_keys (w @ [c]) s
      else if c = CHR '':'' \<and> w \<noteq> [] then dquote # w @ dquote # CHR '':'' # quote_keys [] s
      else w @ c # quote_keys [] s)"

text \<open>\<^verbatim>\<open>.replace(/'/g, '"')\<close>.\<close>

definition double_quotes :: "string \<Rightarrow> string" where
  "double_quotes s = map (\<lambda>c. if c = CHR 0x27 then dquote else c) s"

text \<open>\<^verbatim>\<open>.replace(/,+/g, ',')\<close>.\<close>

fun collapse_commas :: "string \<Rightarrow> string" where
  "collapse_commas (c # d # s) =
     (if c = CHR '','' \<and> d = CHR '','' then collapse_commas (d # s)
      else c # collapse_commas (d # s))"
| "collapse_commas s = s"

text \<open>\<^verbatim>\<open>.replace(/\n\s*$/, '')\<close>: the first line feed after which only white space follows.\<close>

fun strip_final_newline :: "string \<Rightarrow> string" where
  "strip_final_newline [] = []"
| "strip_final_newline (c # s) =
     (if c = newline \<and> list_all js_space s then [] else c # strip_final_newline s)"

definition count_char :: "char \<Rightarrow> string \<Rightarrow> nat" where
  "count_char c s = length (filter (\<lambda>x. x = c) s)"

definition attemptJSONRecovery :: "string \<Rightarrow> json option" where
  "attemptJSONRecovery content =
     (let fixed = strip_final_newline (collapse_commas (double_quotes
                    (quote_keys [] (strip_trailing_commas None content))));
          openBraces = count_char (CHR ''{'') fixed;
          closeBraces = count_char (CHR ''}'') fixed;
          openBrackets = count_char (CHR ''['') fixed;
          closeBrackets = count_char (CHR '']'') fixed
      in JSON_parse (fixed @ replicate (openBraces - closeBraces) (CHR ''}'')
                           @ replicate (openBrackets - closeBrackets) (CHR '']'')))"

definition getDefaultStructure :: "env \<Rightarrow> path \<Rightarrow> json" where
  "getDefaultStructure e filePath =
     (let fileName = snd filePath in
      if starts_with fileName ''worker-'' then
        JObject
          [(''worker_id'',
              JString (replace_first ''.json'' [] (replace_first ''worker-'' [] fileName))),
           (''last_update'', JString (isoNow e)),
           (''status'', JString ''ready''),
           (''current_focus'', JString []),
           (''today'', JObject [(''completed'', JArray []), (''in_progress'', JArray []),
                               (''planned'', JArray [])]),
           (''blockers'', JArray []),
           (''metrics'', JObject []),
           (''priorities'', JObject [(''high'', JArray []), (''medium'', JArray []),
                                    (''low'', JArray [])]),
           (''comments'', JString []),
           (''next_24h'', JArray [])]
      else if fileName = ''tasks.json'' then
        JObject [(''tasks'', JArray []), (''last_updated'', JString (isoNow e))]
      else JObject [])"

text \<open>
  \<^verbatim>\<open>restoreFromBackup\<close> returns \<^verbatim>\<open>null\<close> (here \<open>None\<close>) from its \<^verbatim>\<open>catch\<close> block.  It takes
  the first name of \<open>backupFiles\<close>, writes its bytes over the document and parses them
  afterwards.
\<close>

definition restoreFromBackup ::
  "env \<Rightarrow> path \<Rightarrow> proc \<Rightarrow> disk \<Rightarrow> (error + json option) \<times> proc \<times> disk" where
  "restoreFromBackup e filePath p d =
     (let backupDir = backupDir_of filePath in
      if \<not> fs_dirExists d backupDir then (Inr None, p, d)
      else
        (case backupFiles d filePath of
           [] \<Rightarrow> (Inr None, p, d)
         | latest # _ \<Rightarrow>
             (case fs_readFile d (backupDir, latest) of
                Inl _ \<Rightarrow> (Inr None, p, d)
              | Inr content \<Rightarrow>
                  (case acquireLock e filePath maxLockTime p d of
                     (Inl err, p1, d1) \<Rightarrow>
                       (if err = Unmodelled then Inl Unmodelled else Inr None, p1, d1)
                   | (Inr lockId, p1, d1) \<Rightarrow>
                       (case fs_writeFile d1 filePath content of
                          Inl _ \<Rightarrow> (Inr None, p1, d1)
                        | Inr d2 \<Rightarrow>
                            (let (p2, d3) = releaseLock filePath lockId p1 d2
                             in (Inr (JSON_parse content), p2, d3)))))))"

text \<open>The last two steps of \<^verbatim>\<open>safeJSONRead\<close>: the backup, then the default structure.\<close>

definition restore_or_default ::
  "env \<Rightarrow> path \<Rightarrow> proc \<Rightarrow> disk \<Rightarrow> (error + json) \<times> proc \<times> disk" where
  "restore_or_default e filePath p d =
     (case restoreFromBackup e filePath p d of
        (Inl err, p1, d1) \<Rightarrow> (Inl err, p1, d1)
      | (Inr backupData, p1, d1) \<Rightarrow>
          (case backupData of
             None \<Rightarrow> (Inr (getDefaultStructure e filePath), p1, d1)
           | Some v \<Rightarrow>
               if js_truthy v then (Inr v, p1, d1)
               else (Inr (getDefaultStructure e filePath), p1, d1)))"

text \<open>The inner \<^verbatim>\<open>try\<close> of \<^verbatim>\<open>safeJSONRead\<close>: the repair and its write under a lock.\<close>

definition safeJSONRead ::
  "env \<Rightarrow> path \<Rightarrow> proc \<Rightarrow> disk \<Rightarrow> (error + json) \<times> proc \<times> disk" where
  "safeJSONRead e filePath p d =
     (case (case fs_readFile d filePath of
              Inl _ \<Rightarrow> None
            | Inr content \<Rightarrow> JSON_parse content) of
        Some v \<Rightarrow> (Inr v, p, d)
      | None \<Rightarrow>
          (case fs_readFile d filePath of
             Inl _ \<Rightarrow> restore_or_default e filePath p d
           | Inr content \<Rightarrow>
               (case attemptJSONRecovery content of
                  None \<Rightarrow> restore_or_default e filePath p d
                | Some recovered \<Rightarrow>
                    if \<not> js_truthy recovered then restore_or_default e filePath p d
                    else
                      (case acquireLock e filePath maxLockTime p d of
                         (Inl err, p1, d1) \<Rightarrow>
                           if err = Unmodelled then (Inl Unmodelled, p1, d1)
                           else restore_or_default e filePath p1 d1
                       | (Inr lockId, p1, d1) \<Rightarrow>
                           (case atomicWrite e filePath (Json recovered) lockId p1 d1 of
                              (Inl _, p2, d2) \<Rightarrow> restore_or_default e filePath p2 d2
                            | (Inr _, p2, d2) \<Rightarrow> (Inr recovered, p2, d2))))))"

section \<open>A concrete store\<close>

text \<open>
  The scenario of the specification: the document \<^verbatim>\<open>data/tasks.json\<close>, the workers
  \<^verbatim>\<open>alex\<close> and \<^verbatim>\<open>zephyr\<close>, each a process of its own with its own source of identifiers.
\<close>

definition tasks_json :: path where
  "tasks_json = ([''data''], ''tasks.json'')"

definition env_at :: "int \<Rightarrow> string \<Rightarrow> env" where
  "env_at t w =
     \<lparr>now = t, uuidv4 = (\<lambda>k. w @ ''-'' @ show_nat k), workerId = Some (JString w),
      pid = 7, isoNow = ''2024-01-01T00:00:00.000Z''\<rparr>"

definition proc0 :: proc where
  "proc0 = \<lparr>locks = Map.empty, timers = [], uuid_calls = 0\<rparr>"

definition disk0 :: disk where
  "disk0 = \<lparr>files = [], dirs = []\<rparr>"

text \<open>The lock file that \<^verbatim>\<open>alex\<close> wrote at time 0, and the disk that holds nothing else.\<close>

definition alex_lock :: string where
  "alex_lock = JSON_stringify (lockData_of (env_at 0 ''alex'') ''alex-0'')"

definition disk_alex :: disk where
  "disk_alex = \<lparr>files = [(lockFile_of tasks_json, Bytes alex_lock)], dirs = []\<rparr>"

text \<open>A lock file cut short by a crash in the middle of its write, and one that cannot be read.\<close>

definition torn_lock :: string where
  \<open>torn_lock = ''{"lockId": "alex-0", "work''\<close>

definition disk_torn :: disk where
  "disk_torn = \<lparr>files = [(lockFile_of tasks_json, Bytes torn_lock)], dirs = []\<rparr>"

definition disk_denied :: disk where
  "disk_denied = \<lparr>files = [(lockFile_of tasks_json, Denied)], dirs = []\<rparr>"

text \<open>
  Two processes.  \<^verbatim>\<open>alex\<close> acquires the lock at time 0 with a timeout of 60000;
  \<^verbatim>\<open>zephyr\<close>, with the default timeout, finds it stale at time 31000 and takes it over;
  then \<^verbatim>\<open>alex\<close> releases with its old identifier.
\<close>

definition alex_holds :: "(error + string) \<times> proc \<times> disk" where
  "alex_holds = acquireLock (env_at 0 ''alex'') tasks_json 60000 proc0 disk0"

definition zephyr_reclaims :: "(error + string) \<times> proc \<times> disk" where
  "zephyr_reclaims =
     acquireLock (env_at 31000 ''zephyr'') tasks_json maxLockTime proc0 (snd (snd alex_holds))"

definition alex_late_release :: "proc \<times> disk" where
  "alex_late_release =
     releaseLock tasks_json ''alex-0'' (fst (snd alex_holds)) (snd (snd zephyr_reclaims))"

text \<open>
  Two processes that both pass the existence check on the empty disk before either writes
  its lock file.
\<close>

definition alex_granted :: "(error + string) \<times> proc \<times> disk" where
  "alex_granted = acquire_grant (env_at 0 ''alex'') tasks_json maxLockTime ''alex-0'' proc0 disk0"

definition zephyr_granted :: "(error + string) \<times> proc \<times> disk" where
  "zephyr_granted =
     acquire_grant (env_at 0 ''zephyr'') tasks_json maxLockTime ''zephyr-0'' proc0
       (snd (snd alex_granted))"

text \<open>
  \<^verbatim>\<open>alex\<close> holds the lock and writes: a value that cannot be serialised, and to the
  existing document a string that is no JSON.
\<close>

definition alex_proc :: proc where
  "alex_proc = fst (snd alex_holds)"

definition alex_bad_write :: "(error + unit) \<times> proc \<times> disk" where
  "alex_bad_write = atomicWrite (env_at 10 ''alex'') tasks_json Unserialisable ''alex-0'' alex_proc disk_alex"




section \<open>Sequences of writes and their snapshots\<close>



definition wf_disk :: "disk \<Rightarrow> bool" where
  "wf_disk d \<longleftrightarrow> distinct (map fst (files d))"



definition written :: "jsvalue \<Rightarrow> string" where
  "written data = (case dataString_of data of Inr s \<Rightarrow> s | Inl _ \<Rightarrow> [])"









text \<open>
  The document of the specification's example, \<^verbatim>\<open>{"a":1,}\<close>, its repaired value and the bytes
  that \<^verbatim>\<open>JSON.stringify(v, null, 2)\<close> writes for it.
\<close>

definition trailing_comma :: string where
  \<open>trailing_comma = ''{"a":1,}''\<close>

definition a_is_1 :: json where
  "a_is_1 = JObject [(''a'', JNumber 1)]"

definition a_is_1_bytes :: string where
  \<open>a_is_1_bytes = ''{'' @ [newline] @ ''  "a": 1'' @ [newline] @ ''}''\<close>

text \<open>The same document while \<^verbatim>\<open>alex\<close> holds its lock, read by \<^verbatim>\<open>zephyr\<close> at time 10.\<close>

definition disk_comma_locked :: disk where
  "disk_comma_locked =
     \<lparr>files = [(tasks_json, Bytes trailing_comma), (lockFile_of tasks_json, Bytes alex_lock)],
      dirs = []\<rparr>"

definition read_while_locked :: "(error + json) \<times> proc \<times> disk" where
  "read_while_locked = safeJSONRead (env_at 10 ''zephyr'') tasks_json proc0 disk_comma_locked"







section \<open>Facts about the file system\<close>

lemma lookup_remove: "fs_lookup (fs_remove d p) q = (if q = p then None else fs_lookup d q)"
  by (simp add: fs_lookup_def fs_remove_def delete_conv')

lemma lookup_update:
  "fs_lookup (d\<lparr>files := AList.update p n (files d)\<rparr>) q =
     (if q = p then Some n else fs_lookup d q)"
  by (simp add: fs_lookup_def update_conv')

lemma writeFile_Inr:
  "fs_lookup d p \<noteq> Some Denied \<Longrightarrow>
   fs_writeFile d p b = Inr (d\<lparr>files := AList.update p (Bytes b) (files d)\<rparr>)"
  by (auto simp: fs_writeFile_def split: option.splits fnode.splits)

section \<open>The bound of the parser\<close>

text \<open>
  No call of the parser returns more text than it was given, and a bound as large as the
  length of the text is as good as any larger one: \<open>JSON_parse\<close> never fails for want of
  depth.
\<close>

lemma parse_chars_len: "parse_chars s = Some (k, r) \<Longrightarrow> length r < length s"
proof (induction s arbitrary: k r rule: parse_chars.induct)
  case 1
  then show ?case by simp
next
  case (2 c r0)
  then show ?case
    by (auto split: if_splits list.splits option.splits) fastforce+
qed


lemma skip_ws_len: "length (skip_ws s) \<le> length s"
  by (simp add: skip_ws_def length_dropWhile_le)

lemma skip_ws_Cons_len: "skip_ws s = c # r \<Longrightarrow> length r < length s"
  using skip_ws_len [of s] by simp

lemma parse_frac_len: "parse_frac s = Some (b, r) \<Longrightarrow> length r \<le> length s"
  using length_dropWhile_le [of is_digit "tl s"]
  by (auto simp: parse_frac_def split: list.splits if_splits)

lemma parse_exp_len:
  assumes "parse_exp s = Some (b, r)"
  shows "length r \<le> length s"
proof (cases s)
  case Nil
  then show ?thesis using assms by (auto simp: parse_exp_def)
next
  case (Cons c t)
  show ?thesis
    using assms length_dropWhile_le [of is_digit t] length_dropWhile_le [of is_digit "tl t"]
    unfolding Cons
    by (auto simp: parse_exp_def Let_def split: list.splits if_splits)
qed

lemma parse_number_len: "parse_number s = Some (v, r) \<Longrightarrow> length r \<le> length s"
proof -
  assume a: "parse_number s = Some (v, r)"
  define s1 where "s1 = (if (case s of c # _ \<Rightarrow> c = CHR ''-'' | [] \<Rightarrow> False) then tl s else s)"
  have l1: "length s1 \<le> length s" by (simp add: s1_def)
  from a obtain hf s2 he where
    f: "parse_frac (dropWhile is_digit s1) = Some (hf, s2)" and e: "parse_exp s2 = Some (he, r)"
    by (auto simp: parse_number_def Let_def s1_def split: option.splits if_splits)
  from parse_frac_len [OF f] parse_exp_len [OF e] length_dropWhile_le [of is_digit s1] l1
  show ?thesis by simp
qed

lemma parse_literal_len: "parse_literal s = Some (v, r) \<Longrightarrow> length r \<le> length s"
  by (auto simp: parse_literal_def parse_number_len split: if_splits)


lemma parse_len:
  "parse_value n s = Some (v, r) \<Longrightarrow> length r \<le> length s"
  "parse_elements n s acc = Some (v, r) \<Longrightarrow> length r \<le> length s"
  "parse_members n s ms = Some (v, r) \<Longrightarrow> length r \<le> length s"
proof (induction n s and n s acc and n s ms arbitrary: v r and v r and v r
    rule: parse_value_parse_elements_parse_members.induct)
  case (1 s)
  then show ?case by simp
next
  case (2 n s)
  show ?case
  proof (cases s)
    case Nil
    then show ?thesis using 2(3) by simp
  next
    case (Cons c t)
    consider (arr) "c = CHR ''[''" | (obj) "c \<noteq> CHR ''[''" "c = CHR ''{''"
      | (str) "c \<noteq> CHR ''[''" "c \<noteq> CHR ''{''" "c = dquote"
      | (lit) "c \<noteq> CHR ''[''" "c \<noteq> CHR ''{''" "c \<noteq> dquote"
      by blast
    then show ?thesis
    proof cases
      case arr
      obtain c' r' where sk: "skip_ws t = c' # r'"
        using 2(3) Cons arr by (auto split: list.splits)
      show ?thesis
      proof (cases "c' = CHR '']''")
        case True
        then have "r = r'" using 2(3) Cons arr sk by simp
        then show ?thesis using skip_ws_Cons_len [OF sk] Cons by simp
      next
        case False
        then have "parse_elements n (c' # r') [] = Some (v, r)"
          using 2(3) Cons arr sk by simp
        from 2(1) [OF Cons arr sk False this] skip_ws_len [of t] sk Cons
        show ?thesis by simp
      qed
    next
      case obj
      obtain c' r' where sk: "skip_ws t = c' # r'"
        using 2(3) Cons obj by (auto split: list.splits)
      show ?thesis
      proof (cases "c' = CHR ''}''")
        case True
        then have "r = r'" using 2(3) Cons obj sk by simp
        then show ?thesis using skip_ws_Cons_len [OF sk] Cons by simp
      next
        case False
        then have "parse_members n (c' # r') [] = Some (v, r)"
          using 2(3) Cons obj sk by simp
        from 2(2) [OF Cons obj(1,2) sk False this] skip_ws_len [of t] sk Cons
        show ?thesis by simp
      qed
    next
      case str
      then obtain k where "parse_chars t = Some (k, r)"
        using 2(3) Cons by auto
      from parse_chars_len [OF this] show ?thesis using Cons by simp
    next
      case lit
      then have "parse_literal s = Some (v, r)"
        using 2(3) Cons by simp
      then show ?thesis by (rule parse_literal_len)
    qed
  qed
next
  case (3 n s acc)
  from 3(3) obtain v1 r1 where pv: "parse_value n s = Some (v1, r1)"
    by (auto split: option.splits)
  note l1 = 3(1) [OF pv]
  from 3(3) pv obtain c r' where sk: "skip_ws r1 = c # r'"
    by (auto split: list.splits)
  note l2 = skip_ws_Cons_len [OF sk]
  show ?case
  proof (cases "c = CHR '',''")
    case True
    then obtain m where n: "n = Suc m"
      and rest: "parse_elements m (skip_ws r') (acc @ [v1]) = Some (v, r)"
      using 3(3) pv sk by (auto split: nat.splits)
    from 3(2) [OF pv refl sk True n rest] skip_ws_len [of r'] l1 l2
    show ?thesis by simp
  next
    case False
    then have "r = r'" using 3(3) pv sk by (auto split: if_splits)
    then show ?thesis using l1 l2 by simp
  qed
next
  case (4 n s acc)
  from 4(3) obtain t where s: "s = dquote # t"
    by (auto split: list.splits if_splits)
  from 4(3) s obtain k r1 where pc: "parse_chars t = Some (k, r1)"
    by (auto split: option.splits)
  from 4(3) s pc obtain r2 where sk1: "skip_ws r1 = CHR '':'' # r2"
    by (auto split: list.splits if_splits)
  from 4(3) s pc sk1 obtain v1 r3 where pv: "parse_value n (skip_ws r2) = Some (v1, r3)"
    by (auto split: option.splits)
  from 4(3) s pc sk1 pv obtain c3 r4 where sk3: "skip_ws r3 = c3 # r4"
    by (auto split: list.splits)
  have l: "length r3 \<le> length (skip_ws r2)"
    using 4(1) pv s pc sk1 by blast
  have l0: "length r4 < length s"
    using l skip_ws_Cons_len [OF sk3] skip_ws_len [of r2] skip_ws_Cons_len [OF sk1]
      parse_chars_len [OF pc] s by simp
  show ?case
  proof (cases "c3 = CHR '',''")
    case True
    then obtain m where n: "n = Suc m"
      and rest: "parse_members m (skip_ws r4) (obj_put acc k v1) = Some (v, r)"
      using 4(3) s pc sk1 pv sk3 by (auto split: nat.splits)
    have "length r \<le> length (skip_ws r4)"
      using 4(2) s pc sk1 pv sk3 True n rest by blast
    then show ?thesis using skip_ws_len [of r4] l0 by simp
  next
    case False
    then have "r = r4" using 4(3) s pc sk1 pv sk3 by (auto split: if_splits)
    then show ?thesis using l0 by simp
  qed
qed


lemma parse_fuel_step:
  "length s \<le> n \<Longrightarrow> parse_value (Suc n) s = parse_value n s"
  "length s \<le> n \<Longrightarrow> parse_elements (Suc n) s acc = parse_elements n s acc"
  "length s \<le> n \<Longrightarrow> parse_members (Suc n) s ms = parse_members n s ms"
proof (induction n s and n s acc and n s ms
    rule: parse_value_parse_elements_parse_members.induct)
  case (1 s)
  then show ?case by simp
next
  case (2 n s)
  show ?case
  proof (cases s)
    case Nil
    then show ?thesis by simp
  next
    case (Cons c t)
    have len: "length (skip_ws t) \<le> n"
      using skip_ws_len [of t] 2(3) Cons by simp
    show ?thesis
    proof (cases "skip_ws t")
      case Nil
      then show ?thesis using Cons by simp
    next
      case sk: (Cons c' r')
      have e: "c = CHR ''['' \<Longrightarrow> c' \<noteq> CHR '']'' \<Longrightarrow>
               parse_elements (Suc n) (c' # r') [] = parse_elements n (c' # r') []"
        using 2(1) [OF Cons _ sk] len sk by simp
      have m: "c \<noteq> CHR ''['' \<Longrightarrow> c = CHR ''{'' \<Longrightarrow> c' \<noteq> CHR ''}'' \<Longrightarrow>
               parse_members (Suc n) (c' # r') [] = parse_members n (c' # r') []"
        using 2(2) [OF Cons _ _ sk] len sk by simp
      show ?thesis
        unfolding Cons parse_value.simps(2) [of "Suc n"] parse_value.simps(2) [of n]
        using e m by (auto simp add: sk simp del: parse_elements.simps parse_members.simps)
    qed
  qed
next
  case (3 n s acc)
  note pv = 3(1) [OF 3(3)]
  show ?case
  proof (cases "parse_value n s")
    case None
    then show ?thesis using pv by simp
  next
    case (Some a)
    obtain v r where a: "a = (v, r)" by (cases a)
    note l1 = parse_len(1) [OF Some [unfolded a]]
    obtain m where n: "n = Suc m"
      using Some by (cases n) simp_all
    show ?thesis
    proof (cases "skip_ws r")
      case Nil
      then show ?thesis using pv Some a by simp
    next
      case (Cons c r')
      have "length (skip_ws r') \<le> m"
        using skip_ws_len [of r'] skip_ws_Cons_len [OF Cons] l1 3(3) n by simp
      with 3(2) [OF Some [unfolded a] refl Cons _ n]
      have "c = CHR '','' \<Longrightarrow>
            parse_elements (Suc m) (skip_ws r') (acc @ [v]) = parse_elements m (skip_ws r') (acc @ [v])"
        by simp
      then show ?thesis
        unfolding parse_elements.simps [of "Suc n" s] parse_elements.simps [of n s] pv Some a
        by (simp add: Cons n del: parse_elements.simps)
    qed
  qed
next
  case (4 n s acc)
  show ?case
  proof (cases "\<exists>t k r1 r2. s = dquote # t \<and> parse_chars t = Some (k, r1)
                   \<and> skip_ws r1 = CHR '':'' # r2")
    case False
    have "parse_members k s acc = None" for k
      unfolding parse_members.simps [of k s acc] using False
      by (auto split: list.splits option.splits
          simp del: parse_value.simps parse_elements.simps parse_members.simps)
    then show ?thesis by (simp del: parse_members.simps)
  next
    case True
    then obtain t k r1 r2 where s: "s = dquote # t" and pc: "parse_chars t = Some (k, r1)"
      and sk1: "skip_ws r1 = CHR '':'' # r2"
      by blast
    have unf: "parse_members j s acc =
        (case parse_value j (skip_ws r2) of
           None \<Rightarrow> None
         | Some (v, r3) \<Rightarrow>
             (case skip_ws r3 of
                [] \<Rightarrow> None
              | c3 # r4 \<Rightarrow>
                  if c3 = CHR '','' then
                    (case j of
                       0 \<Rightarrow> None
                     | Suc m \<Rightarrow> parse_members m (skip_ws r4) (obj_put acc k v))
                  else if c3 = CHR ''}'' then Some (JObject (obj_put acc k v), r4)
                  else None))" for j
      unfolding parse_members.simps [of j s acc]
      by (simp add: s pc sk1 del: parse_value.simps parse_elements.simps parse_members.simps)
    have l2: "length (skip_ws r2) < n"
      using skip_ws_len [of r2] skip_ws_Cons_len [OF sk1] parse_chars_len [OF pc] s 4(3)
      by simp
    then have "length (skip_ws r2) \<le> n" by simp
    with 4(1) [OF s _ pc refl sk1]
    have pv: "parse_value (Suc n) (skip_ws r2) = parse_value n (skip_ws r2)"
      by (simp del: parse_value.simps)
    show ?thesis
    proof (cases "parse_value n (skip_ws r2)")
      case None
      then show ?thesis
        unfolding unf [of "Suc n"] unf [of n] pv by (simp del: parse_members.simps)
    next
      case (Some a)
      obtain v r3 where a: "a = (v, r3)" by (cases a)
      note l3 = parse_len(1) [OF Some [unfolded a]]
      obtain m where n: "n = Suc m"
        using Some by (cases n) simp_all
      show ?thesis
      proof (cases "skip_ws r3")
        case Nil
        then show ?thesis
          unfolding unf [of "Suc n"] unf [of n] pv Some a
          by (simp del: parse_members.simps)
      next
        case (Cons c3 r4)
        have "length (skip_ws r4) \<le> m"
          using skip_ws_len [of r4] skip_ws_Cons_len [OF Cons] l3 l2 n by simp
        with 4(2) [OF s _ pc refl sk1 _ Some [unfolded a] refl Cons _ n]
        have "c3 = CHR '','' \<Longrightarrow>
              parse_members (Suc m) (skip_ws r4) (obj_put acc k v)
                = parse_members m (skip_ws r4) (obj_put acc k v)"
          by (simp del: parse_members.simps)
        then show ?thesis
          unfolding unf [of "Suc n"] unf [of n] pv Some a
          by (simp add: Cons n del: parse_members.simps)
      qed
    qed
  qed
qed

lemma parse_value_fuel: "length s \<le> n \<Longrightarrow> parse_value n s = parse_value (length s) s"
proof (induction "n - length s" arbitrary: n)
  case 0
  then show ?case by simp
next
  case (Suc k)
  then obtain m where n: "n = Suc m" and "length s \<le> m" and "k = m - length s"
    by (cases n) auto
  then show ?case
    using Suc.hyps(1) [of m] parse_fuel_step(1) [of s m] by simp
qed

lemma JSON_parse_fuel:
  assumes "length s \<le> n"
  shows "JSON_parse s =
           (case parse_value n (skip_ws s) of
              None \<Rightarrow> None
            | Some (v, r) \<Rightarrow> if skip_ws r = [] then Some v else None)"
proof -
  have "length (skip_ws s) \<le> length s" by (rule skip_ws_len)
  then have "parse_value n (skip_ws s) = parse_value (length s) (skip_ws s)"
    using assms parse_value_fuel [of "skip_ws s" n] parse_value_fuel [of "skip_ws s" "length s"]
    by simp
  then show ?thesis by (simp add: JSON_parse_def)
qed

section \<open>The lock manager\<close>


lemma acquire_check_stale:
  assumes "fs_lookup d (lockFile_of filePath) = Some (Bytes content)"
    and "JSON_parse content = Some (JObject ms)"
    and "map_of ms ''timestamp'' = Some (JNumber ts)"
    and "now e - ts > timeout"
  shows "acquire_check e filePath timeout d = Inr (fs_remove d (lockFile_of filePath))"
  using assms
  by (simp add: acquire_check_def fs_pathExists_def readLockFile_def fs_readFile_def
      get_prop_def lock_is_stale_def)

lemma acquire_grant_free:
  assumes "fs_lookup d (lockFile_of filePath) \<noteq> Some Denied"
  shows "acquire_grant e filePath timeout lockId p d =
    (Inr lockId,
     p\<lparr>locks := (locks p)(filePath \<mapsto> (lockId, lockFile_of filePath)),
       timers := timers p @ [(filePath, lockId, now e + timeout)]\<rparr>,
     d\<lparr>files := AList.update (lockFile_of filePath)
                  (Bytes (JSON_stringify (lockData_of e lockId))) (files d)\<rparr>)"
  using assms by (simp add: acquire_grant_def writeFile_Inr Let_def)

lemma alex_lock_parse:
  "JSON_parse alex_lock =
     Some (JObject [(''lockId'', JString ''alex-0''), (''workerId'', JString ''alex''),
                    (''timestamp'', JNumber 0), (''pid'', JNumber 7)])"
  by code_simp

lemma disk_alex_lock: "fs_lookup disk_alex (lockFile_of tasks_json) = Some (Bytes alex_lock)"
  by (simp add: disk_alex_def fs_lookup_def)



lemma readLockFile_unknown:
  assumes "(\<exists>err. fs_readFile d lockFile = Inl err)
         \<or> (\<exists>content. fs_readFile d lockFile = Inr content \<and> JSON_parse content = None)"
  shows "readLockFile d lockFile = unknownLock"
  using assms by (auto simp: readLockFile_def)

lemma acquire_check_unknown:
  assumes "fs_pathExists d (lockFile_of filePath)"
    and "readLockFile d (lockFile_of filePath) = unknownLock"
    and "timeout < now e"
  shows "acquire_check e filePath timeout d = Inr (fs_remove d (lockFile_of filePath))"
  using assms
  by (simp add: acquire_check_def unknownLock_def get_prop_def lock_is_stale_def)

text \<open>
  Claim C10.  Let the lock file exist, and let reading it fail or its bytes not parse as JSON.
  Then \<^verbatim>\<open>readLockFile\<close> raises nothing (its result is a value) and yields the record with
  timestamp 0 and worker \<^verbatim>\<open>unknown\<close>.  So for every timeout below the current time the next
  \<^verbatim>\<open>acquireLock\<close> takes the lock for stale, removes it and grants a new lock, whoever calls.
\<close>

theorem corrupt_lock_is_stale:
  assumes "fs_pathExists d (lockFile_of filePath)"
    and "(\<exists>err. fs_readFile d (lockFile_of filePath) = Inl err)
       \<or> (\<exists>content. fs_readFile d (lockFile_of filePath) = Inr content
             \<and> JSON_parse content = None)"
  shows "readLockFile d (lockFile_of filePath)
           = JObject [(''timestamp'', JNumber 0), (''workerId'', JString ''unknown'')]
       \<and> (timeout < now e \<longrightarrow>
           (\<exists>p' d'. acquireLock e filePath timeout p d = (Inr (uuidv4 e (uuid_calls p)), p', d')
              \<and> locks p' filePath = Some (uuidv4 e (uuid_calls p), lockFile_of filePath)
              \<and> fs_lookup d' (lockFile_of filePath) =
                  Some (Bytes (JSON_stringify (lockData_of e (uuidv4 e (uuid_calls p)))))))"
proof (intro conjI impI)
  have unk: "readLockFile d (lockFile_of filePath) = unknownLock"
    by (rule readLockFile_unknown [OF assms(2)])
  then show "readLockFile d (lockFile_of filePath)
           = JObject [(''timestamp'', JNumber 0), (''workerId'', JString ''unknown'')]"
    by (simp add: unknownLock_def)
  assume "timeout < now e"
  note chk = acquire_check_unknown [OF assms(1) unk this]
  have free: "fs_lookup (fs_remove d (lockFile_of filePath)) (lockFile_of filePath) \<noteq> Some Denied"
    by (simp add: lookup_remove)
  show "\<exists>p' d'. acquireLock e filePath timeout p d = (Inr (uuidv4 e (uuid_calls p)), p', d')
              \<and> locks p' filePath = Some (uuidv4 e (uuid_calls p), lockFile_of filePath)
              \<and> fs_lookup d' (lockFile_of filePath) =
                  Some (Bytes (JSON_stringify (lockData_of e (uuidv4 e (uuid_calls p)))))"
    using chk acquire_grant_free [OF free]
    by (simp add: acquireLock_def next_uuid_def lookup_update)
qed

lemma torn_lock_parse: "JSON_parse torn_lock = None"
  by code_simp

text \<open>A torn lock file and an unreadable one, both taken over by \<^verbatim>\<open>zephyr\<close>.\<close>

theorem corrupt_lock_is_stale_witness:
  "readLockFile disk_torn (lockFile_of tasks_json)
     = JObject [(''timestamp'', JNumber 0), (''workerId'', JString ''unknown'')]
   \<and> fst (acquireLock (env_at 31000 ''zephyr'') tasks_json 30000 proc0 disk_torn) = Inr ''zephyr-0''
   \<and> readLockFile disk_denied (lockFile_of tasks_json)
     = JObject [(''timestamp'', JNumber 0), (''workerId'', JString ''unknown'')]
   \<and> fst (acquireLock (env_at 31000 ''zephyr'') tasks_json 30000 proc0 disk_denied) = Inr ''zephyr-0''"
proof -
  have ex1: "fs_pathExists disk_torn (lockFile_of tasks_json)"
    by (simp add: disk_torn_def fs_pathExists_def fs_lookup_def)
  have rd1: "(\<exists>err. fs_readFile disk_torn (lockFile_of tasks_json) = Inl err)
       \<or> (\<exists>content. fs_readFile disk_torn (lockFile_of tasks_json) = Inr content
             \<and> JSON_parse content = None)"
    by (simp add: disk_torn_def fs_readFile_def fs_lookup_def torn_lock_parse)
  have ex2: "fs_pathExists disk_denied (lockFile_of tasks_json)"
    by (simp add: disk_denied_def fs_pathExists_def fs_lookup_def)
  have rd2: "(\<exists>err. fs_readFile disk_denied (lockFile_of tasks_json) = Inl err)
       \<or> (\<exists>content. fs_readFile disk_denied (lockFile_of tasks_json) = Inr content
             \<and> JSON_parse content = None)"
    by (simp add: disk_denied_def fs_readFile_def fs_lookup_def)
  show ?thesis
    using corrupt_lock_is_stale [OF ex1 rd1, of 30000 "env_at 31000 ''zephyr''" proc0]
      corrupt_lock_is_stale [OF ex2 rd2, of 30000 "env_at 31000 ''zephyr''" proc0]
    by (auto simp: env_at_def proc0_def digit_char_def show_nat.simps)
qed

text \<open>
  Claim C9, as amended.  Every successful \<^verbatim>\<open>acquireLock\<close> queues a deferred release of the
  lock it granted, due \<open>timeout\<close> milliseconds after the grant (\<^verbatim>\<open>setTimeout\<close>, lines 48
  to 51).  When the callback runs in the state the call left, it removes the lock file and
  the entry of \<^verbatim>\<open>this.locks\<close>.  The lazy comparison of timestamps at the next
  \<^verbatim>\<open>acquireLock\<close> (claim C1) is the second way a lock expires, not the only one.
\<close>

theorem acquire_schedules_release:
  assumes "acquireLock e filePath timeout p d = (Inr lockId, p', d')"
  shows "timers p' = timers p @ [(filePath, lockId, now e + timeout)]
       \<and> fire_timer (filePath, lockId, now e + timeout) p' d'
           = (p'\<lparr>timers := remove1 (filePath, lockId, now e + timeout) (timers p'),
                 locks := (locks p')(filePath := None)\<rparr>,
              fs_remove d' (lockFile_of filePath))"
  using assms
  by (auto simp: acquireLock_def acquire_grant_def next_uuid_def Let_def fire_timer_def
      releaseLock_def split: sum.splits prod.splits)

theorem acquire_schedules_release_witness:
  "timers (fst (snd (acquireLock (env_at 0 ''alex'') tasks_json 30000 proc0 disk0)))
     = [(tasks_json, ''alex-0'', 30000)]"
proof -
  have "\<exists>p' d'. acquireLock (env_at 0 ''alex'') tasks_json 30000 proc0 disk0 = (Inr ''alex-0'', p', d')"
    by (simp add: acquireLock_def acquire_check_def acquire_grant_def next_uuid_def Let_def
        fs_pathExists_def fs_lookup_def disk0_def fs_writeFile_def env_at_def proc0_def digit_char_def show_nat.simps)
  then obtain p' d' where
    a: "acquireLock (env_at 0 ''alex'') tasks_json 30000 proc0 disk0 = (Inr ''alex-0'', p', d')"
    by blast
  from acquire_schedules_release [OF a] a show ?thesis
    by (simp add: proc0_def env_at_def)
qed

text \<open>
  The claim as stated says that no operation schedules a deferred release; the first
  \<^verbatim>\<open>acquireLock\<close> on the empty disk leaves one in the timer queue.
\<close>

theorem acquire_schedules_release_counterexample:
  "timers (fst (snd (acquireLock (env_at 0 ''alex'') tasks_json 30000 proc0 disk0))) \<noteq> []"
  by (simp add: acquireLock_def acquire_check_def acquire_grant_def next_uuid_def Let_def
        fs_pathExists_def fs_lookup_def disk0_def fs_writeFile_def env_at_def proc0_def)

lemma acquireLock_granted:
  assumes "acquire_check e filePath timeout d = Inr d1"
    and "fs_lookup d1 (lockFile_of filePath) \<noteq> Some Denied"
  shows "acquireLock e filePath timeout p d =
    (Inr (uuidv4 e (uuid_calls p)),
     p\<lparr>uuid_calls := Suc (uuid_calls p),
       locks := (locks p)(filePath \<mapsto> (uuidv4 e (uuid_calls p), lockFile_of filePath)),
       timers := timers p @ [(filePath, uuidv4 e (uuid_calls p), now e + timeout)]\<rparr>,
     d1\<lparr>files := AList.update (lockFile_of filePath)
                  (Bytes (JSON_stringify (lockData_of e (uuidv4 e (uuid_calls p))))) (files d1)\<rparr>)"
  using assms by (simp add: acquireLock_def next_uuid_def acquire_grant_free)

lemma acquire_check_free:
  "fs_lookup d (lockFile_of filePath) = None \<Longrightarrow> acquire_check e filePath timeout d = Inr d"
  by (simp add: acquire_check_def fs_pathExists_def)

lemma releaseLock_held:
  "locks p filePath = Some (lockId, lf) \<Longrightarrow>
   releaseLock filePath lockId p d =
     (p\<lparr>locks := (locks p)(filePath := None)\<rparr>, fs_remove d (lockFile_of filePath))"
  by (simp add: releaseLock_def)

lemma alex_holds_eq:
  "alex_holds =
     (Inr ''alex-0'',
      \<lparr>locks = [tasks_json \<mapsto> (''alex-0'', lockFile_of tasks_json)],
       timers = [(tasks_json, ''alex-0'', 60000)], uuid_calls = 1\<rparr>,
      disk_alex)"
proof -
  have free: "fs_lookup disk0 (lockFile_of tasks_json) = None"
    by (simp add: disk0_def fs_lookup_def)
  have "fs_lookup disk0 (lockFile_of tasks_json) \<noteq> Some Denied"
    using free by simp
  from acquireLock_granted [OF acquire_check_free [OF free] this, where p = proc0]
  show ?thesis
    by (simp add: alex_holds_def proc0_def disk0_def disk_alex_def alex_lock_def env_at_def
        digit_char_def show_nat.simps)
qed

lemma zephyr_reclaims_eq:
  "zephyr_reclaims =
     (Inr ''zephyr-0'',
      \<lparr>locks = [tasks_json \<mapsto> (''zephyr-0'', lockFile_of tasks_json)],
       timers = [(tasks_json, ''zephyr-0'', 61000)], uuid_calls = 1\<rparr>,
      \<lparr>files = [(lockFile_of tasks_json,
                  Bytes (JSON_stringify (lockData_of (env_at 31000 ''zephyr'') ''zephyr-0'')))],
       dirs = []\<rparr>)"
proof -
  have ts: "map_of [(''lockId'', JString ''alex-0''), (''workerId'', JString ''alex''),
                    (''timestamp'', JNumber 0), (''pid'', JNumber 7)] ''timestamp''
            = Some (JNumber 0)"
    by simp
  have stale: "now (env_at 31000 ''zephyr'') - 0 > maxLockTime"
    by (simp add: env_at_def maxLockTime_def)
  note chk = acquire_check_stale [OF disk_alex_lock alex_lock_parse ts stale]
  have "fs_lookup (fs_remove disk_alex (lockFile_of tasks_json)) (lockFile_of tasks_json)
          \<noteq> Some Denied"
    by (simp add: lookup_remove)
  from acquireLock_granted [OF chk this, where p = proc0]
  show ?thesis
    by (simp add: zephyr_reclaims_def alex_holds_eq proc0_def disk_alex_def env_at_def
        digit_char_def show_nat.simps fs_remove_def maxLockTime_def)
qed

text \<open>
  Claim C2 (the code departs from it).  \<^verbatim>\<open>releaseLock\<close> compares the identifier with the
  entry of the calling process's own \<^verbatim>\<open>this.locks\<close>, not with the one stored in the lock
  file.  After \<^verbatim>\<open>zephyr\<close> has taken over the stale lock of \<^verbatim>\<open>alex\<close>, the table of
  \<^verbatim>\<open>alex\<close> still holds the superseded identifier, and the late release of \<^verbatim>\<open>alex\<close>
  removes the lock file that now belongs to \<^verbatim>\<open>zephyr\<close>.
\<close>

theorem late_release_removes_newer_lock:
  "fst alex_holds = Inr ''alex-0''
   \<and> fst zephyr_reclaims = Inr ''zephyr-0''
   \<and> locks (fst (snd zephyr_reclaims)) tasks_json = Some (''zephyr-0'', lockFile_of tasks_json)
   \<and> fs_lookup (snd (snd zephyr_reclaims)) (lockFile_of tasks_json)
       = Some (Bytes (JSON_stringify (lockData_of (env_at 31000 ''zephyr'') ''zephyr-0'')))
   \<and> \<not> fs_pathExists (snd alex_late_release) (lockFile_of tasks_json)"
proof -
  have "locks (fst (snd alex_holds)) tasks_json = Some (''alex-0'', lockFile_of tasks_json)"
    by (simp add: alex_holds_eq)
  from releaseLock_held [OF this]
  have "snd alex_late_release = fs_remove (snd (snd zephyr_reclaims)) (lockFile_of tasks_json)"
    by (simp add: alex_late_release_def)
  then have "\<not> fs_pathExists (snd alex_late_release) (lockFile_of tasks_json)"
    by (simp add: fs_pathExists_def lookup_remove)
  then show ?thesis
    by (simp add: alex_holds_eq zephyr_reclaims_eq fs_lookup_def)
qed

text \<open>
  Claim C3 (the code departs from it).  \<^verbatim>\<open>acquireLock\<close> grants the lock by
  \<^verbatim>\<open>fs.pathExists\<close> followed by a separate \<^verbatim>\<open>fs.writeFile\<close>.  When two processes both run
  the check before either writes, both checks pass, both writes succeed and both processes
  record the lock of the same document as theirs.
\<close>

theorem check_then_write_race:
  "acquire_check (env_at 0 ''alex'') tasks_json maxLockTime disk0 = Inr disk0
   \<and> acquire_check (env_at 0 ''zephyr'') tasks_json maxLockTime disk0 = Inr disk0
   \<and> fst alex_granted = Inr ''alex-0''
   \<and> fst zephyr_granted = Inr ''zephyr-0''
   \<and> locks (fst (snd alex_granted)) tasks_json = Some (''alex-0'', lockFile_of tasks_json)
   \<and> locks (fst (snd zephyr_granted)) tasks_json = Some (''zephyr-0'', lockFile_of tasks_json)"
proof -
  have free: "fs_lookup disk0 (lockFile_of tasks_json) = None"
    by (simp add: disk0_def fs_lookup_def)
  have a: "alex_granted =
     (Inr ''alex-0'',
      proc0\<lparr>locks := (locks proc0)(tasks_json \<mapsto> (''alex-0'', lockFile_of tasks_json)),
            timers := timers proc0 @ [(tasks_json, ''alex-0'', now (env_at 0 ''alex'') + maxLockTime)]\<rparr>,
      disk0\<lparr>files := AList.update (lockFile_of tasks_json)
                  (Bytes (JSON_stringify (lockData_of (env_at 0 ''alex'') ''alex-0''))) (files disk0)\<rparr>)"
    unfolding alex_granted_def by (rule acquire_grant_free) (simp add: free)
  have "fs_lookup (snd (snd alex_granted)) (lockFile_of tasks_json) \<noteq> Some Denied"
    by (simp add: a lookup_update)
  from acquire_grant_free [OF this]
  have z: "fst zephyr_granted = Inr ''zephyr-0''"
    "locks (fst (snd zephyr_granted)) tasks_json = Some (''zephyr-0'', lockFile_of tasks_json)"
    by (simp_all add: zephyr_granted_def)
  show ?thesis
    using acquire_check_free [OF free] z by (simp add: a)
qed

lemma lookup_ensureDir: "fs_lookup (fs_ensureDir d dir) q = fs_lookup d q"
  by (simp add: fs_ensureDir_def fs_lookup_def)

lemma lookup_writeFile:
  "fs_writeFile d p b = Inr d' \<Longrightarrow>
   fs_lookup d' q = (if q = p then Some (Bytes b) else fs_lookup d q)"
  by (auto simp: fs_writeFile_def lookup_update split: option.splits fnode.splits)

lemma lookup_copy:
  "fs_copy d src dest = Inr d' \<Longrightarrow> q \<noteq> dest \<Longrightarrow> fs_lookup d' q = fs_lookup d q"
  by (auto simp: fs_copy_def lookup_writeFile split: sum.splits)

lemma lookup_move:
  "fs_move d src dest = Inr d' \<Longrightarrow>
   fs_lookup d' q = (if q = dest then fs_lookup d src else if q = src then None else fs_lookup d q)"
  by (auto simp: fs_move_def fs_lookup_def update_conv' delete_conv' split: option.splits)

lemma lookup_remove_all:
  "fs_lookup (foldl (\<lambda>d' file. fs_remove d' (dir, file)) d fs) q =
     (if fst q = dir \<and> snd q \<in> set fs then None else fs_lookup d q)"
proof (induction fs arbitrary: d)
  case Nil
  then show ?case by simp
next
  case (Cons f fs)
  show ?case
    by (auto simp: Cons.IH lookup_remove prod_eq_iff)
qed

lemma lookup_cleanOldBackups:
  "fst q \<noteq> backupDir_of filePath \<Longrightarrow> fs_lookup (cleanOldBackups filePath d) q = fs_lookup d q"
  by (simp add: cleanOldBackups_def Let_def lookup_remove_all)

lemma lookup_createBackup:
  assumes "fst q \<noteq> backupDir_of filePath"
  shows "fs_lookup (createBackup e filePath d) q = fs_lookup d q"
proof -
  have "q \<noteq> backupFile_of filePath (now e)"
    using assms by (auto simp: backupFile_of_def)
  then show ?thesis
    using assms
    by (auto simp: createBackup_def Let_def lookup_ensureDir lookup_cleanOldBackups lookup_copy
        split: sum.splits)
qed

lemma same_dir_not_backupDir: "fst filePath \<noteq> backupDir_of filePath"
  by (simp add: backupDir_of_def)

lemma tempFile_neq:
  "tempFile_of e u filePath \<noteq> filePath" "filePath \<noteq> tempFile_of e u filePath"
  by (cases filePath; simp add: tempFile_of_def)+

lemma lockFile_neq:
  "lockFile_of filePath \<noteq> filePath" "filePath \<noteq> lockFile_of filePath"
  by (cases filePath; simp add: lockFile_of_def)+

lemma lockFile_neq_tempFile:
  "lockFile_of filePath \<noteq> tempFile_of e u filePath"
  "tempFile_of e u filePath \<noteq> lockFile_of filePath"
  by (simp_all add: lockFile_of_def tempFile_of_def)

lemma fst_tempFile: "fst (tempFile_of e u filePath) = fst filePath"
  by (simp add: tempFile_of_def)

lemma fst_lockFile: "fst (lockFile_of filePath) = fst filePath"
  by (simp add: lockFile_of_def)






lemma alex_proc_eq:
  "alex_proc = \<lparr>locks = [tasks_json \<mapsto> (''alex-0'', lockFile_of tasks_json)],
                timers = [(tasks_json, ''alex-0'', 60000)], uuid_calls = 1\<rparr>"
  by (simp add: alex_proc_def alex_holds_eq)



text \<open>
  Claim C5 (the code departs from it).  The serialisation
  \<^verbatim>\<open>JSON.stringify(data, null, 2)\<close> (line 97) stands before the \<^verbatim>\<open>try\<close>, so when it throws,
  the \<^verbatim>\<open>finally\<close> block with its \<^verbatim>\<open>releaseLock\<close> is never entered: the write returns
  with the \<^verbatim>\<open>TypeError\<close>, the lock file is still there and \<^verbatim>\<open>this.locks\<close> still holds
  the entry.
\<close>

theorem unserialisable_write_keeps_lock:
  "fst alex_bad_write = Inl TypeError
   \<and> locks (fst (snd alex_bad_write)) tasks_json = Some (''alex-0'', lockFile_of tasks_json)
   \<and> fs_pathExists (snd (snd alex_bad_write)) (lockFile_of tasks_json)"
  by (simp add: alex_bad_write_def atomicWrite_def alex_proc_eq dataString_of_def next_uuid_def
      disk_alex_def fs_pathExists_def fs_lookup_def)

text \<open>
  On every other exit of a write that holds the lock (success, a failed write of the
  temporary file, a failed validation) the \<^verbatim>\<open>finally\<close> block has released the lock.
\<close>

lemma write_releases_lock:
  assumes "locks p filePath = Some (lockId, lf)"
    and "dataString_of data = Inr s"
    and "atomicWrite e filePath data lockId p d = (r, p', d')"
  shows "locks p' filePath = None \<and> \<not> fs_pathExists d' (lockFile_of filePath)"
  using assms
  by (auto simp: atomicWrite_def next_uuid_def Let_def releaseLock_def fs_pathExists_def
      lookup_remove split: prod.splits option.splits)

section \<open>Backup names and their timestamps\<close>






















section \<open>The sort\<close>







section \<open>The directory of backups\<close>










section \<open>Well-formed disks\<close>

lemma wf_update: "wf_disk d \<Longrightarrow> wf_disk (d\<lparr>files := AList.update k v (files d)\<rparr>)"
  by (simp add: wf_disk_def distinct_update)

lemma wf_remove: "wf_disk d \<Longrightarrow> wf_disk (fs_remove d p)"
  by (simp add: wf_disk_def fs_remove_def distinct_delete)

lemma wf_writeFile: "wf_disk d \<Longrightarrow> fs_writeFile d p b = Inr d' \<Longrightarrow> wf_disk d'"
  by (auto simp: fs_writeFile_def wf_update split: option.splits fnode.splits)

lemma wf_move: "wf_disk d \<Longrightarrow> fs_move d src dest = Inr d' \<Longrightarrow> wf_disk d'"
  by (auto simp: fs_move_def wf_disk_def distinct_update distinct_delete split: option.splits)

lemma wf_copy: "wf_disk d \<Longrightarrow> fs_copy d src dest = Inr d' \<Longrightarrow> wf_disk d'"
  by (auto simp: fs_copy_def wf_writeFile split: sum.splits)

lemma wf_ensureDir: "wf_disk (fs_ensureDir d dir) = wf_disk d"
  by (simp add: fs_ensureDir_def wf_disk_def)

lemma wf_remove_all:
  "wf_disk d \<Longrightarrow> wf_disk (foldl (\<lambda>d' file. fs_remove d' (dir, file)) d fs)"
  by (induction fs arbitrary: d) (simp_all add: wf_remove)

lemma wf_cleanOldBackups: "wf_disk d \<Longrightarrow> wf_disk (cleanOldBackups filePath d)"
  by (simp add: cleanOldBackups_def Let_def wf_remove_all)

lemma wf_createBackup: "wf_disk d \<Longrightarrow> wf_disk (createBackup e filePath d)"
  by (auto simp: createBackup_def Let_def wf_ensureDir wf_cleanOldBackups
      split: sum.splits dest: wf_copy [rotated])

lemma wf_releaseLock: "wf_disk d \<Longrightarrow> wf_disk (snd (releaseLock filePath lockId p d))"
  by (auto simp: releaseLock_def Let_def wf_remove split: option.splits)

section \<open>What a locked write does to the disk\<close>

lemma in_backupDir_neq:
  "(backupDir_of filePath, n) \<noteq> filePath"
  "(backupDir_of filePath, n) \<noteq> lockFile_of filePath"
  "(backupDir_of filePath, n) \<noteq> tempFile_of e u filePath"
  by (cases filePath; simp add: backupDir_of_def lockFile_of_def tempFile_of_def)+

lemma acquire_check_effect:
  assumes "acquire_check e filePath timeout d = Inr d1"
  shows "fs_lookup d1 (lockFile_of filePath) = None"
    and "q \<noteq> lockFile_of filePath \<Longrightarrow> fs_lookup d1 q = fs_lookup d q"
    and "wf_disk d \<Longrightarrow> wf_disk d1"
  using assms
  by (auto simp: acquire_check_def Let_def fs_pathExists_def lookup_remove wf_remove
      split: if_splits sum.splits option.splits bool.splits)

lemma acquireLock_effect:
  assumes "acquireLock e filePath timeout p d = (Inr lockId, p1, d1)"
  shows "locks p1 filePath = Some (lockId, lockFile_of filePath)"
    and "q \<noteq> lockFile_of filePath \<Longrightarrow> fs_lookup d1 q = fs_lookup d q"
    and "wf_disk d \<Longrightarrow> wf_disk d1"
proof -
  obtain d0 where chk: "acquire_check e filePath timeout d = Inr d0"
    using assms by (cases "acquire_check e filePath timeout d")
      (auto simp: acquireLock_def next_uuid_def)
  have free: "fs_lookup d0 (lockFile_of filePath) \<noteq> Some Denied"
    using acquire_check_effect(1) [OF chk] by simp
  note g = acquireLock_granted [OF chk free, of p]
  from g assms show "locks p1 filePath = Some (lockId, lockFile_of filePath)"
    by auto
  from g assms have d1: "d1 = d0\<lparr>files := AList.update (lockFile_of filePath)
       (Bytes (JSON_stringify (lockData_of e (uuidv4 e (uuid_calls p))))) (files d0)\<rparr>"
    by simp
  show "q \<noteq> lockFile_of filePath \<Longrightarrow> fs_lookup d1 q = fs_lookup d q"
    unfolding d1 using acquire_check_effect(2) [OF chk] by (simp add: lookup_update)
  show "wf_disk d \<Longrightarrow> wf_disk d1"
    unfolding d1 using acquire_check_effect(3) [OF chk] by (simp add: wf_update)
qed

lemma write_try_success:
  assumes "write_try e filePath tempFile s d = (None, d')"
    and "fst tempFile = fst filePath" and "tempFile \<noteq> filePath"
  shows "fs_lookup d' filePath = Some (Bytes s)"
    and "fs_lookup d' (backupDir_of filePath, n)
           = fs_lookup (createBackup e filePath d) (backupDir_of filePath, n)"
    and "wf_disk d \<Longrightarrow> wf_disk d'"
proof -
  let ?d1 = "createBackup e filePath d"
  obtain d2 where w: "fs_writeFile ?d1 tempFile s = Inr d2"
    using assms(1) by (cases "fs_writeFile ?d1 tempFile s") (auto simp: write_try_def Let_def)
  have mv: "fs_move d2 tempFile filePath = Inr d'"
    using assms(1) w
    by (auto simp: write_try_def Let_def split: sum.splits option.splits if_splits)
  have t: "fs_lookup d2 tempFile = Some (Bytes s)"
    using lookup_writeFile [OF w] by simp
  show "fs_lookup d' filePath = Some (Bytes s)"
    using lookup_move [OF mv] t by simp
  have "(backupDir_of filePath, n) \<noteq> tempFile" "(backupDir_of filePath, n) \<noteq> filePath"
    using assms(2) same_dir_not_backupDir [of filePath] in_backupDir_neq(1) [of filePath n]
    by auto
  then show "fs_lookup d' (backupDir_of filePath, n)
           = fs_lookup ?d1 (backupDir_of filePath, n)"
    using lookup_move [OF mv] lookup_writeFile [OF w] by simp
  show "wf_disk d \<Longrightarrow> wf_disk d'"
    using wf_move [OF _ mv] wf_writeFile [OF _ w] wf_createBackup by blast
qed

lemma atomicWrite_success:
  assumes "atomicWrite e filePath data lockId p d = (Inr u, p', d')"
  shows "fs_lookup d' filePath = Some (Bytes (written data))"
    and "fs_lookup d' (backupDir_of filePath, n)
           = fs_lookup (createBackup e filePath d) (backupDir_of filePath, n)"
    and "wf_disk d \<Longrightarrow> wf_disk d'"
    and "locks p' filePath = None"
    and "fs_lookup d' (lockFile_of filePath) = None"
proof -
  let ?t = "tempFile_of e (uuidv4 e (uuid_calls p)) filePath"
  obtain lf where held: "locks p filePath = Some (lockId, lf)"
    using assms by (auto simp: atomicWrite_def split: option.splits if_splits)
  obtain s where s: "dataString_of data = Inr s"
    using assms held by (cases "dataString_of data") (auto simp: atomicWrite_def next_uuid_def)
  obtain thrown d1 where wt: "write_try e filePath ?t s d = (thrown, d1)"
    by (cases "write_try e filePath ?t s d")
  have thrown: "thrown = None"
    using assms held s wt
    by (cases thrown) (auto simp: atomicWrite_def next_uuid_def Let_def split: prod.splits)
  have rel: "releaseLock filePath lockId (snd (next_uuid e p)) d1 = (p', d')"
    using assms held s wt thrown
    by (auto simp: atomicWrite_def next_uuid_def Let_def split: prod.splits)
  have held': "locks (snd (next_uuid e p)) filePath = Some (lockId, lf)"
    using held by (simp add: next_uuid_def)
  from releaseLock_held [OF held', of d1] rel
  have p': "locks p' filePath = None" and d': "d' = fs_remove d1 (lockFile_of filePath)"
    by auto
  note ok = write_try_success [OF wt [unfolded thrown] fst_tempFile tempFile_neq(1)]
  have w: "written data = s"
    by (simp add: written_def s)
  show "fs_lookup d' filePath = Some (Bytes (written data))"
    unfolding d' w using ok(1) by (simp add: lookup_remove lockFile_neq)
  have "(backupDir_of filePath, n) \<noteq> lockFile_of filePath"
    by (rule in_backupDir_neq)
  then show "fs_lookup d' (backupDir_of filePath, n)
           = fs_lookup (createBackup e filePath d) (backupDir_of filePath, n)"
    unfolding d' using ok(2) by (simp add: lookup_remove)
  show "wf_disk d \<Longrightarrow> wf_disk d'"
    unfolding d' using ok(3) by (simp add: wf_remove)
  show "locks p' filePath = None" by (rule p')
  show "fs_lookup d' (lockFile_of filePath) = None"
    unfolding d' by (simp add: lookup_remove)
qed

section \<open>One backup\<close>








section \<open>A sequence of writes\<close>











section \<open>Recovery\<close>

lemma trailing_comma_parse: "JSON_parse trailing_comma = None"
  by code_simp

lemma trailing_comma_recovery: "attemptJSONRecovery trailing_comma = Some a_is_1"
  by code_simp

lemma a_is_1_stringify: "JSON_stringify a_is_1 = a_is_1_bytes"
  by code_simp

lemma a_is_1_parse: "JSON_parse a_is_1_bytes = Some a_is_1"
  by code_simp

lemma atomicWrite_ok:
  assumes held: "locks p filePath = Some (lockId, lf)"
    and s: "dataString_of data = Inr s"
    and tmp: "fs_lookup d (tempFile_of e (uuidv4 e (uuid_calls p)) filePath) \<noteq> Some Denied"
    and valid: "JSON_parse s \<noteq> None"
  shows "\<exists>p' d'. atomicWrite e filePath data lockId p d = (Inr (), p', d')"
proof -
  let ?t = "tempFile_of e (uuidv4 e (uuid_calls p)) filePath"
  let ?d1 = "createBackup e filePath d"
  have "fs_lookup ?d1 ?t = fs_lookup d ?t"
    by (rule lookup_createBackup) (simp add: fst_tempFile same_dir_not_backupDir)
  then have "fs_lookup ?d1 ?t \<noteq> Some Denied" using tmp by simp
  note w = writeFile_Inr [OF this, of s]
  let ?d2 = "?d1\<lparr>files := AList.update ?t (Bytes s) (files ?d1)\<rparr>"
  have rd: "fs_readFile ?d2 ?t = Inr s"
    by (simp add: fs_readFile_def lookup_update)
  have mv: "\<exists>d3. fs_move ?d2 ?t filePath = Inr d3"
    by (simp add: fs_move_def lookup_update)
  then obtain d3 where "fs_move ?d2 ?t filePath = Inr d3" by blast
  then have "write_try e filePath ?t s d = (None, d3)"
    using w rd valid by (auto simp: write_try_def Let_def)
  then show ?thesis
    using held s by (simp add: atomicWrite_def next_uuid_def Let_def split: prod.splits)
qed

lemma safeJSONRead_repaired:
  assumes doc: "fs_lookup d filePath = Some (Bytes content)"
    and bad: "JSON_parse content = None"
    and rec: "attemptJSONRecovery content = Some v" and truthy: "js_truthy v"
    and acq: "acquireLock e filePath maxLockTime p d = (Inr lockId, p1, d1)"
    and wr: "atomicWrite e filePath (Json v) lockId p1 d1 = (Inr u, p2, d2)"
  shows "safeJSONRead e filePath p d = (Inr v, p2, d2)"
  using assms by (simp add: safeJSONRead_def fs_readFile_def)

text \<open>
  Claim C8, as amended.  Let the bytes of a document be exactly \<^verbatim>\<open>{"a":1,}\<close>, let no live lock
  be held on it (the check of \<^verbatim>\<open>acquireLock\<close> passes: there is no lock file, or a stale
  one), and let the name of the temporary file be fresh.  Then \<^verbatim>\<open>safeJSONRead\<close> returns the
  object \<^verbatim>\<open>{a: 1}\<close>, the document holds its serialisation afterwards, and the lock taken for
  the write is released.
\<close>

theorem trailing_comma_repaired:
  assumes doc: "fs_lookup d filePath = Some (Bytes trailing_comma)"
    and chk: "acquire_check e filePath maxLockTime d = Inr d0"
    and tmp: "\<not> fs_pathExists d (tempFile_of e (uuidv4 e (Suc (uuid_calls p))) filePath)"
  shows "\<exists>p' d'. safeJSONRead e filePath p d = (Inr (JObject [(''a'', JNumber 1)]), p', d')
           \<and> fs_lookup d' filePath = Some (Bytes (JSON_stringify (JObject [(''a'', JNumber 1)])))
           \<and> fs_lookup d' (lockFile_of filePath) = None
           \<and> locks p' filePath = None"
proof -
  let ?id = "uuidv4 e (uuid_calls p)"
  have free: "fs_lookup d0 (lockFile_of filePath) \<noteq> Some Denied"
    using acquire_check_effect(1) [OF chk] by simp
  obtain p1 d1 where acq: "acquireLock e filePath maxLockTime p d = (Inr ?id, p1, d1)"
    and calls: "uuid_calls p1 = Suc (uuid_calls p)"
    using acquireLock_granted [OF chk free, of p] by simp
  note eff = acquireLock_effect [OF acq]
  let ?t = "tempFile_of e (uuidv4 e (uuid_calls p1)) filePath"
  have "fs_lookup d1 ?t = fs_lookup d ?t"
    by (rule eff(2)) (rule lockFile_neq_tempFile)
  then have tmp1: "fs_lookup d1 ?t \<noteq> Some Denied"
    using tmp by (simp add: calls fs_pathExists_def)
  have s: "dataString_of (Json a_is_1) = Inr a_is_1_bytes"
    by (simp add: dataString_of_def a_is_1_def a_is_1_stringify [unfolded a_is_1_def])
  have valid: "JSON_parse a_is_1_bytes \<noteq> None"
    by (simp add: a_is_1_parse)
  obtain p2 d2 where wr: "atomicWrite e filePath (Json a_is_1) ?id p1 d1 = (Inr (), p2, d2)"
    using atomicWrite_ok [OF eff(1) s tmp1 valid] by blast
  have truthy: "js_truthy a_is_1"
    by (simp add: js_truthy_def a_is_1_def)
  have "safeJSONRead e filePath p d = (Inr a_is_1, p2, d2)"
    using doc trailing_comma_parse trailing_comma_recovery truthy acq wr
    by (rule safeJSONRead_repaired)
  moreover have "fs_lookup d2 filePath = Some (Bytes (JSON_stringify a_is_1))"
    using atomicWrite_success(1) [OF wr] s by (simp add: written_def a_is_1_stringify)
  ultimately show ?thesis
    using atomicWrite_success(4,5) [OF wr] by (simp add: a_is_1_def)
qed

theorem trailing_comma_repaired_witness:
  "fst (safeJSONRead (env_at 10 ''zephyr'') tasks_json proc0
          \<lparr>files = [(tasks_json, Bytes trailing_comma)], dirs = []\<rparr>)
     = Inr (JObject [(''a'', JNumber 1)])"
proof -
  let ?d = "\<lparr>files = [(tasks_json, Bytes trailing_comma)], dirs = []\<rparr>"
  have doc: "fs_lookup ?d tasks_json = Some (Bytes trailing_comma)"
    by (simp add: fs_lookup_def)
  have "fs_lookup ?d (lockFile_of tasks_json) = None"
    by (simp add: fs_lookup_def tasks_json_def lockFile_of_def)
  then have chk: "acquire_check (env_at 10 ''zephyr'') tasks_json maxLockTime ?d = Inr ?d"
    by (rule acquire_check_free)
  have tmp: "\<not> fs_pathExists ?d
               (tempFile_of (env_at 10 ''zephyr'')
                  (uuidv4 (env_at 10 ''zephyr'') (Suc (uuid_calls proc0))) tasks_json)"
    by (simp add: fs_pathExists_def fs_lookup_def tasks_json_def tempFile_of_def)
  from trailing_comma_repaired [OF doc chk tmp] show ?thesis
    by auto
qed

text \<open>
  The claim as stated has no condition on the lock.  While another worker holds a live lock
  on the document, the \<^verbatim>\<open>acquireLock\<close> of the read throws, nothing is persisted and the
  default structure is returned.
\<close>

theorem trailing_comma_repaired_counterexample:
  "fst read_while_locked
     = Inr (JObject [(''tasks'', JArray []),
                     (''last_updated'', JString ''2024-01-01T00:00:00.000Z'')])
   \<and> fs_lookup (snd (snd read_while_locked)) tasks_json = Some (Bytes trailing_comma)"
  by code_simp










end
